theory Spec2Isabelle
  imports Main "HOL-Library.Monad_Syntax"
begin

section \<open>Data model of routines.c\<close>

text \<open>
  The engine of routines.c is a set of C structures linked by pointers, and its claims are
  about which structure points at which. The embedding keeps the pointers: an address is a
  natural number, a nullable pointer is an \<open>addr option\<close> (\<open>None\<close> is NULL), and each
  kind of heap object lives in a map from addresses to records. Dereferencing an address
  that is not allocated, and a failing \<open>assert\<close>, both end the run: every operation
  returns an \<open>option\<close>, and \<open>None\<close> stands for the aborted (or undefined) execution.
\<close>

type_synonym addr = nat

text \<open>The enum \<open>routines_state_t\<close> of routines.h, in its order (the first tag is 0).\<close>

datatype routines_state_t =
    ROUTINES_COMPLETED
  | ROUTINES_SUSPENDED
  | ROUTINES_RUNNING
  | ROUTINES_BLOCKED_SEND
  | ROUTINES_BLOCKED_RECV
  | ROUTINES_BLOCKED_JOIN

text \<open>
  A \<open>coroutine_queue_t *\<close> points at one of three places: the global \<open>ready_queue\<close>, the
  \<open>recv_queue\<close> member of a message queue, or the \<open>join_queue\<close> member of a coroutine.
\<close>

datatype cq_ptr = ReadyQ | RecvQ addr | JoinQ addr

text \<open>
  A \<open>message_t **\<close> (the tail cursor of a message queue) points at the \<open>head\<close> member of a
  message queue or at the \<open>next\<close> member of a message entry.
\<close>

datatype msg_cursor = HeadOf addr | NextOf addr

text \<open>
  A \<open>jmp_buf\<close> holds the point at which a control flow called \<open>setjmp\<close>, together with
  its stack. There are two such points in routines.c: the one in \<open>routines_spawn\<close> and the
  one in \<open>transfer\<close>. What the library still has to do once \<open>transfer\<close> returns depends
  on its caller, and is recorded as a \<open>cont\<close>:
  \<^item> \<open>Ret_unit\<close>: the caller returns at once (yield, join, suspend, send, signal, post);
  \<^item> \<open>Then_dequeue q cell\<close>: \<open>recv\<close> goes on to \<open>dequeue_message(q, cell)\<close>;
  \<^item> \<open>Then_recv q\<close>: \<open>routines_call\<close> goes on to \<open>recv(q, NULL)\<close>;
  \<^item> \<open>Then_destroy c\<close>: \<open>routines_destroy\<close> goes on from the return of its call of
    \<open>routines_suspend(c)\<close>.
  An out-parameter \<open>routines_queue_t **reply_queue\<close> is an \<open>addr option option\<close>:
  \<open>None\<close> is a NULL pointer, \<open>Some v\<close> points at a variable of the caller that holds \<open>v\<close>.
\<close>

datatype cont =
    Ret_unit
  | Then_dequeue addr "addr option option"
  | Then_recv addr
  | Then_destroy addr

datatype jmp_buf = In_spawn addr | In_transfer cont

record message_t =
  m_message :: "addr option"
  m_sender :: "addr option"
  m_reply_queue :: "addr option"
  m_next :: "addr option"

record coroutine_queue_t =
  head :: "addr option"
  tail :: "addr option"

record routines_queue =
  q_head :: "addr option"
  q_tail :: msg_cursor
  q_recv_queue :: coroutine_queue_t

text \<open>
  \<open>struct routines_coroutine\<close>. The member \<open>message\<close> is a pointer to the \<open>sender\<close>
  member of a message entry: \<open>c_message = Some e\<close> points into the entry at address \<open>e\<close>.
\<close>

record routines_coroutine =
  c_entrypoint :: "addr option"
  c_arg :: "addr option"
  c_stack_base :: "addr option"
  c_context :: "jmp_buf option"
  c_state :: routines_state_t
  c_join_queue :: coroutine_queue_t
  c_message :: "addr option"
  c_queue :: "cq_ptr option"
  c_prev :: "addr option"
  c_next :: "addr option"

text \<open>The heap and the global variables of routines.c.\<close>

record engine =
  coroutines :: "addr \<rightharpoonup> routines_coroutine"
  queues :: "addr \<rightharpoonup> routines_queue"
  messages :: "addr \<rightharpoonup> message_t"
  root_task :: "jmp_buf option"
  current_coroutine :: "addr option"
  exited_coroutine :: "addr option"
  ready_queue :: coroutine_queue_t
  unused_stacks :: "addr option list"

text \<open>
  What a library call does to the control flow that made it: it returns a value, or control
  leaves through \<open>longjmp\<close> (or through \<open>call_on_stack\<close>) before the call returns.
\<close>

datatype retval =
    RUnit
  | RMsg "addr option" "addr option option"
  | RHandle addr

datatype outcome = Returned retval engine | Switched engine

fun engine_of :: "outcome \<Rightarrow> engine" where
  "engine_of (Returned v s) = s"
| "engine_of (Switched s) = s"

fun switched :: "outcome \<Rightarrow> bool" where
  "switched (Returned v s) = False"
| "switched (Switched s) = True"

definition STACK_SIZE :: nat where
  "STACK_SIZE = 4096 * 8"

definition initial_engine :: engine where
  "initial_engine =
     \<lparr>coroutines = Map.empty, queues = Map.empty, messages = Map.empty,
      root_task = None, current_coroutine = None, exited_coroutine = None,
      ready_queue = \<lparr>head = None, tail = None\<rparr>, unused_stacks = []\<rparr>"

section \<open>Memory access\<close>

definition assert :: "bool \<Rightarrow> unit option" where
  "assert b = (if b then Some () else None)"

definition co_upd ::
  "addr \<Rightarrow> (routines_coroutine \<Rightarrow> routines_coroutine) \<Rightarrow> engine \<Rightarrow> engine option" where
  "co_upd a f s =
     (case coroutines s a of
        None \<Rightarrow> None
      | Some c \<Rightarrow> Some (s\<lparr>coroutines := (coroutines s)(a \<mapsto> f c)\<rparr>))"

definition mq_upd ::
  "addr \<Rightarrow> (routines_queue \<Rightarrow> routines_queue) \<Rightarrow> engine \<Rightarrow> engine option" where
  "mq_upd a f s =
     (case queues s a of
        None \<Rightarrow> None
      | Some q \<Rightarrow> Some (s\<lparr>queues := (queues s)(a \<mapsto> f q)\<rparr>))"

definition msg_upd ::
  "addr \<Rightarrow> (message_t \<Rightarrow> message_t) \<Rightarrow> engine \<Rightarrow> engine option" where
  "msg_upd a f s =
     (case messages s a of
        None \<Rightarrow> None
      | Some m \<Rightarrow> Some (s\<lparr>messages := (messages s)(a \<mapsto> f m)\<rparr>))"

definition cq_get :: "cq_ptr \<Rightarrow> engine \<Rightarrow> coroutine_queue_t option" where
  "cq_get p s =
     (case p of
        ReadyQ \<Rightarrow> Some (ready_queue s)
      | RecvQ q \<Rightarrow> map_option q_recv_queue (queues s q)
      | JoinQ c \<Rightarrow> map_option c_join_queue (coroutines s c))"

definition cq_upd ::
  "cq_ptr \<Rightarrow> (coroutine_queue_t \<Rightarrow> coroutine_queue_t) \<Rightarrow> engine \<Rightarrow> engine option" where
  "cq_upd p f s =
     (case p of
        ReadyQ \<Rightarrow> Some (s\<lparr>ready_queue := f (ready_queue s)\<rparr>)
      | RecvQ q \<Rightarrow> mq_upd q (\<lambda>mq. mq\<lparr>q_recv_queue := f (q_recv_queue mq)\<rparr>) s
      | JoinQ c \<Rightarrow> co_upd c (\<lambda>co. co\<lparr>c_join_queue := f (c_join_queue co)\<rparr>) s)"

section \<open>Coroutine queues\<close>

text \<open>
  \<open>coroutine_enqueue\<close>, \<open>coroutine_dequeue\<close> and \<open>coroutine_remove\<close>, statement by
  statement. Every member is read from the state as it is at that statement, so that a
  queue that lives inside the coroutine it links, or a coroutine that is its own
  neighbour, behaves as it does in C.
\<close>

definition coroutine_enqueue :: "cq_ptr \<Rightarrow> addr \<Rightarrow> engine \<Rightarrow> engine option" where
  "coroutine_enqueue queue coroutine s = do {
     c \<leftarrow> coroutines s coroutine;
     assert (c_next c = None);
     assert (c_prev c = None);
     q \<leftarrow> cq_get queue s;
     s1 \<leftarrow> (case tail q of
            Some t \<Rightarrow> do {
              s' \<leftarrow> co_upd coroutine (\<lambda>c. c\<lparr>c_prev := Some t\<rparr>) s;
              co_upd t (\<lambda>c. c\<lparr>c_next := Some coroutine\<rparr>) s' }
          | None \<Rightarrow> cq_upd queue (\<lambda>q. q\<lparr>head := Some coroutine\<rparr>) s);
     s2 \<leftarrow> cq_upd queue (\<lambda>q. q\<lparr>tail := Some coroutine\<rparr>) s1;
     co_upd coroutine (\<lambda>c. c\<lparr>c_queue := Some queue\<rparr>) s2 }"

definition coroutine_dequeue :: "cq_ptr \<Rightarrow> engine \<Rightarrow> (addr option \<times> engine) option" where
  "coroutine_dequeue queue s = do {
     q \<leftarrow> cq_get queue s;
     s1 \<leftarrow> (case head q of
            Some h \<Rightarrow> do {
              hc \<leftarrow> coroutines s h;
              s' \<leftarrow> cq_upd queue (\<lambda>q. q\<lparr>head := c_next hc\<rparr>) s;
              co_upd h (\<lambda>c. c\<lparr>c_queue := None\<rparr>) s' }
          | None \<Rightarrow> Some s);
     q1 \<leftarrow> cq_get queue s1;
     s2 \<leftarrow> (if head q1 = None then cq_upd queue (\<lambda>q. q\<lparr>tail := None\<rparr>) s1 else Some s1);
     Some (head q, s2) }"

definition coroutine_remove :: "addr \<Rightarrow> engine \<Rightarrow> engine option" where
  "coroutine_remove coroutine s = do {
     c \<leftarrow> coroutines s coroutine;
     queue \<leftarrow> c_queue c;
     s1 \<leftarrow> (case c_prev c of
            Some p \<Rightarrow> co_upd p (\<lambda>pc. pc\<lparr>c_next := c_next c\<rparr>) s
          | None \<Rightarrow> do {
              q \<leftarrow> cq_get queue s;
              assert (head q = Some coroutine);
              cq_upd queue (\<lambda>q. q\<lparr>head := c_next c\<rparr>) s });
     c1 \<leftarrow> coroutines s1 coroutine;
     s2 \<leftarrow> (case c_next c1 of
            Some n \<Rightarrow> co_upd n (\<lambda>nc. nc\<lparr>c_prev := c_prev c1\<rparr>) s1
          | None \<Rightarrow> do {
              q \<leftarrow> cq_get queue s1;
              assert (tail q = Some coroutine);
              cq_upd queue (\<lambda>q. q\<lparr>tail := c_prev c1\<rparr>) s1 });
     co_upd coroutine (\<lambda>c. c\<lparr>c_next := None, c_prev := None, c_queue := None\<rparr>) s2 }"

section \<open>Stacks\<close>

definition push_stack :: "addr option \<Rightarrow> engine \<Rightarrow> engine" where
  "push_stack stack_base s = s\<lparr>unused_stacks := stack_base # unused_stacks s\<rparr>"

definition free_stack :: "addr option \<Rightarrow> engine \<Rightarrow> engine" where
  "free_stack stack_base s = push_stack stack_base s"

definition pop_stack :: "engine \<Rightarrow> addr option \<times> engine" where
  "pop_stack s =
     (case unused_stacks s of
        [] \<Rightarrow> (None, s)
      | stack_base # rest \<Rightarrow> (stack_base, s\<lparr>unused_stacks := rest\<rparr>))"

text \<open>\<open>alloc_stack\<close>; \<open>region\<close> is the address \<open>malloc(STACK_SIZE)\<close> returns when it is called.\<close>

definition alloc_stack :: "addr \<Rightarrow> engine \<Rightarrow> addr option \<times> engine" where
  "alloc_stack region s =
     (case pop_stack s of
        (None, s') \<Rightarrow> (Some (region + STACK_SIZE), s')
      | (Some stack, s') \<Rightarrow> (Some stack, s'))"

text \<open>
  The block that ends both \<open>routines_spawn\<close> and \<open>transfer\<close>: the stack of the coroutine
  that exited last is put on the free list.
\<close>

definition reclaim_exited :: "engine \<Rightarrow> engine option" where
  "reclaim_exited s =
     (case exited_coroutine s of
        None \<Rightarrow> Some s
      | Some x \<Rightarrow> do {
          c \<leftarrow> coroutines s x;
          s1 \<leftarrow> co_upd x (\<lambda>c. c\<lparr>c_stack_base := None\<rparr>) (free_stack (c_stack_base c) s);
          Some (s1\<lparr>exited_coroutine := None\<rparr>) })"

section \<open>Transfer of control\<close>

text \<open>
  \<open>transfer(queue, state, coroutine)\<close>. The argument \<open>k\<close> is what the caller does after
  \<open>transfer\<close> returns; \<open>setjmp\<close> stores it with the resumption point. \<open>longjmp\<close> to
  the context that this very call has just saved makes \<open>setjmp\<close> return 1 in the same
  control flow: \<open>transfer\<close> then runs its last block and returns. \<open>longjmp\<close> to any other
  context leaves the caller suspended: the outcome is \<open>Switched\<close>, and the control flow
  that was entered goes on from its own saved context (see \<open>wake\<close>).
\<close>

definition transfer ::
  "cq_ptr option \<Rightarrow> routines_state_t \<Rightarrow> addr option \<Rightarrow> cont \<Rightarrow> engine \<Rightarrow> outcome option" where
  "transfer queue state coroutine k s = do {
     let self = current_coroutine s;
     s1 \<leftarrow> (case self of
            Some me \<Rightarrow> do {
              s' \<leftarrow> co_upd me (\<lambda>c. c\<lparr>c_state := state\<rparr>) s;
              (case queue of
                 Some q \<Rightarrow> coroutine_enqueue q me s'
               | None \<Rightarrow> Some s') }
          | None \<Rightarrow> Some s);
     (target, s2) \<leftarrow> (case coroutine of
            None \<Rightarrow> coroutine_dequeue ReadyQ s1
          | Some c \<Rightarrow> Some (Some c, s1));
     let s3 = s2\<lparr>current_coroutine := target\<rparr>;
     s4 \<leftarrow> (case self of
            Some me \<Rightarrow> co_upd me (\<lambda>c. c\<lparr>c_context := Some (In_transfer k)\<rparr>) s3
          | None \<Rightarrow> Some (s3\<lparr>root_task := Some (In_transfer k)\<rparr>));
     s5 \<leftarrow> (case target of
            Some n \<Rightarrow> co_upd n (\<lambda>c. c\<lparr>c_state := ROUTINES_RUNNING\<rparr>) s4
          | None \<Rightarrow> Some s4);
     if target = self
     then do { s6 \<leftarrow> reclaim_exited s5; Some (Returned RUnit s6) }
     else Some (Switched s5) }"

section \<open>Suspend and resume\<close>

text \<open>
  The body of \<open>routines_suspend\<close>; \<open>k\<close> is what its caller does after it returns, which
  the \<open>setjmp\<close> of the \<open>transfer\<close> at its end stores. \<open>routines_suspend\<close> itself is a
  call whose caller goes on outside the library; \<open>routines_destroy\<close> is the one caller
  inside it that has more to do.
\<close>

definition suspend_then :: "cont \<Rightarrow> addr option \<Rightarrow> engine \<Rightarrow> outcome option" where
  "suspend_then k coroutine s = do {
     a \<leftarrow> coroutine;
     c \<leftarrow> coroutines s a;
     s1 \<leftarrow> (case c_message c of
            Some e \<Rightarrow> do {
              s' \<leftarrow> msg_upd e (\<lambda>m. m\<lparr>m_sender := None\<rparr>) s;
              co_upd a (\<lambda>c. c\<lparr>c_message := None\<rparr>) s' }
          | None \<Rightarrow> Some s);
     c1 \<leftarrow> coroutines s1 a;
     s2 \<leftarrow> (if c_queue c1 \<noteq> None then coroutine_remove a s1 else Some s1);
     s3 \<leftarrow> co_upd a (\<lambda>c. c\<lparr>c_state := ROUTINES_SUSPENDED\<rparr>) s2;
     if Some a = current_coroutine s3
     then transfer None ROUTINES_SUSPENDED None k s3
     else Some (Returned RUnit s3) }"

definition routines_suspend :: "addr option \<Rightarrow> engine \<Rightarrow> outcome option" where
  "routines_suspend coroutine s = suspend_then Ret_unit coroutine s"

text \<open>
  \<open>routines_resume\<close>. Its second assertion makes the call of \<open>routines_suspend\<close> one that
  does not transfer; were it to transfer, the run would not be one of this function, and
  the model ends it.
\<close>

definition routines_resume :: "addr option \<Rightarrow> engine \<Rightarrow> engine option" where
  "routines_resume coroutine s = do {
     a \<leftarrow> coroutine;
     assert (Some a \<noteq> current_coroutine s);
     c \<leftarrow> coroutines s a;
     assert (c_state c \<noteq> ROUTINES_COMPLETED);
     out \<leftarrow> routines_suspend (Some a) s;
     (case out of
        Switched s' \<Rightarrow> None
      | Returned v s1 \<Rightarrow> do {
          s2 \<leftarrow> co_upd a (\<lambda>c. c\<lparr>c_state := ROUTINES_RUNNING\<rparr>) s1;
          coroutine_enqueue ReadyQ a s2 }) }"

section \<open>Message queues\<close>

text \<open>\<open>routines_queue_create\<close>; \<open>queue\<close> is the address \<open>malloc\<close> returns.\<close>

definition routines_queue_create :: "addr \<Rightarrow> engine \<Rightarrow> addr \<times> engine" where
  "routines_queue_create queue s =
     (queue,
      s\<lparr>queues := (queues s)(queue \<mapsto>
          \<lparr>q_head = None, q_tail = HeadOf queue,
           q_recv_queue = \<lparr>head = None, tail = None\<rparr>\<rparr>)\<rparr>)"

definition pending_messages :: "addr option \<Rightarrow> engine \<Rightarrow> bool option" where
  "pending_messages queue s =
     (case queue of
        None \<Rightarrow> Some False
      | Some q \<Rightarrow> map_option (\<lambda>mq. q_head mq \<noteq> None) (queues s q))"

text \<open>
  \<open>enqueue_message\<close>; \<open>new_tail\<close> is the address \<open>malloc\<close> returns for the entry, and \<open>k\<close>
  is what the caller does after a blocking send returns. The store through the tail
  cursor writes the \<open>head\<close> of a queue or the \<open>next\<close> of an entry.
\<close>

definition enqueue_message ::
  "addr \<Rightarrow> addr option \<Rightarrow> addr option \<Rightarrow> addr option \<Rightarrow> addr \<Rightarrow> cont \<Rightarrow> engine
     \<Rightarrow> outcome option" where
  "enqueue_message queue message sender reply_queue new_tail k s = do {
     let s1 = s\<lparr>messages := (messages s)(new_tail \<mapsto>
                 \<lparr>m_message = message, m_sender = sender,
                  m_reply_queue = reply_queue, m_next = None\<rparr>)\<rparr>;
     q \<leftarrow> queues s1 queue;
     s2 \<leftarrow> (case q_tail q of
            HeadOf q' \<Rightarrow> mq_upd q' (\<lambda>mq. mq\<lparr>q_head := Some new_tail\<rparr>) s1
          | NextOf e \<Rightarrow> msg_upd e (\<lambda>m. m\<lparr>m_next := Some new_tail\<rparr>) s1);
     s3 \<leftarrow> mq_upd queue (\<lambda>mq. mq\<lparr>q_tail := NextOf new_tail\<rparr>) s2;
     (case sender of
        Some sndr \<Rightarrow> do {
          s4 \<leftarrow> co_upd sndr (\<lambda>c. c\<lparr>c_message := Some new_tail\<rparr>) s3;
          transfer None ROUTINES_BLOCKED_SEND None k s4 }
      | None \<Rightarrow> Some (Returned RUnit s3)) }"

text \<open>
  \<open>dequeue_message\<close> returns the payload, the content of the caller's reply-queue variable
  after the call (written only when there is a head entry), and the new state. \<open>free\<close>
  removes the entry from the heap.
\<close>

definition dequeue_message ::
  "addr \<Rightarrow> addr option option \<Rightarrow> engine
     \<Rightarrow> (addr option \<times> addr option option \<times> engine) option" where
  "dequeue_message queue reply_queue s = do {
     q \<leftarrow> queues s queue;
     (message, cell, s4) \<leftarrow> (case q_head q of
            Some h \<Rightarrow> do {
              m \<leftarrow> messages s h;
              s1 \<leftarrow> (case m_sender m of
                     Some sndr \<Rightarrow> routines_resume (Some sndr) s
                   | None \<Rightarrow> Some s);
              m1 \<leftarrow> messages s1 h;
              let cell = (case reply_queue of
                     Some v \<Rightarrow> Some (m_reply_queue m1)
                   | None \<Rightarrow> None);
              s2 \<leftarrow> mq_upd queue (\<lambda>mq. mq\<lparr>q_head := m_next m1\<rparr>) s1;
              Some (m_message m, cell, s2\<lparr>messages := (messages s2)(h := None)\<rparr>) }
          | None \<Rightarrow> Some (None, reply_queue, s));
     q1 \<leftarrow> queues s4 queue;
     s5 \<leftarrow> (if q_head q1 = None
            then mq_upd queue (\<lambda>mq. mq\<lparr>q_tail := HeadOf queue\<rparr>) s4
            else Some s4);
     Some (message, cell, s5) }"

text \<open>
  \<open>send\<close>: with a receiver parked on the queue, the entry is added without a sender and
  control is transferred to that receiver, the caller going to the ready queue; without
  one, \<open>enqueue_message\<close> gets the sender the caller passed.
\<close>

definition send ::
  "addr \<Rightarrow> addr option \<Rightarrow> addr option \<Rightarrow> addr option \<Rightarrow> addr \<Rightarrow> cont \<Rightarrow> engine
     \<Rightarrow> outcome option" where
  "send send_queue message sender reply_queue new_tail k s = do {
     (server, s1) \<leftarrow> coroutine_dequeue (RecvQ send_queue) s;
     (case server of
        Some srv \<Rightarrow> do {
          out \<leftarrow> enqueue_message send_queue message None reply_queue new_tail k s1;
          transfer (Some ReadyQ) ROUTINES_RUNNING (Some srv) k (engine_of out) }
      | None \<Rightarrow> enqueue_message send_queue message sender reply_queue new_tail k s1) }"

definition dequeue_returned :: "addr \<Rightarrow> addr option option \<Rightarrow> engine \<Rightarrow> outcome option" where
  "dequeue_returned queue reply_queue s = do {
     (message, cell, s') \<leftarrow> dequeue_message queue reply_queue s;
     Some (Returned (RMsg message cell) s') }"

text \<open>
  \<open>recv\<close>: when nothing is pending the caller is parked on the receiver queue; when
  \<open>transfer\<close> returns (at once, or after the caller has been scheduled again) the head
  entry, if there is one, is dequeued.
\<close>

definition recv :: "addr \<Rightarrow> addr option option \<Rightarrow> engine \<Rightarrow> outcome option" where
  "recv recv_queue reply_queue s = do {
     pending \<leftarrow> pending_messages (Some recv_queue) s;
     if \<not> pending
     then do {
       out \<leftarrow> transfer (Some (RecvQ recv_queue)) ROUTINES_BLOCKED_RECV None
                (Then_dequeue recv_queue reply_queue) s;
       (case out of
          Switched s' \<Rightarrow> Some (Switched s')
        | Returned v s' \<Rightarrow> dequeue_returned recv_queue reply_queue s') }
     else dequeue_returned recv_queue reply_queue s }"

section \<open>Resuming every coroutine of a queue\<close>

text \<open>
  The loop that \<open>routine_entry\<close>, \<open>routines_destroy\<close> and \<open>routines_queue_destroy\<close> each
  run over a coroutine queue: dequeue and resume until the queue gives NULL.
\<close>

partial_function (option) resume_all :: "cq_ptr \<Rightarrow> engine \<Rightarrow> engine option" where
  "resume_all queue s =
     Option.bind (coroutine_dequeue queue s) (\<lambda>r.
       case fst r of
         None \<Rightarrow> Some (snd r)
       | Some joined \<Rightarrow>
           Option.bind (routines_resume (Some joined) (snd r)) (resume_all queue))"

text \<open>
  \<open>routines_destroy\<close> from the return of its call of \<open>routines_suspend\<close> on; \<open>free\<close>
  removes the record from the heap.
\<close>

definition destroy_rest :: "addr \<Rightarrow> engine \<Rightarrow> outcome option" where
  "destroy_rest coroutine s = do {
     s1 \<leftarrow> resume_all (JoinQ coroutine) s;
     c \<leftarrow> coroutines s1 coroutine;
     let s2 = (if c_stack_base c \<noteq> None then free_stack (c_stack_base c) s1 else s1);
     Some (Returned RUnit (s2\<lparr>coroutines := (coroutines s2)(coroutine := None)\<rparr>)) }"

section \<open>Resuming a saved context\<close>

text \<open>
  What a control flow does once it is entered again through \<open>longjmp\<close>: \<open>setjmp\<close>
  returns 1, the last block of \<open>routines_spawn\<close> or \<open>transfer\<close> runs, and the library
  call that had been left finishes (or, for \<open>routines_call\<close> and \<open>routines_destroy\<close>,
  goes on).
\<close>

definition resume_cont :: "cont \<Rightarrow> engine \<Rightarrow> outcome option" where
  "resume_cont k s =
     (case k of
        Ret_unit \<Rightarrow> Some (Returned RUnit s)
      | Then_dequeue q cell \<Rightarrow> dequeue_returned q cell s
      | Then_recv q \<Rightarrow> recv q None s
      | Then_destroy c \<Rightarrow> destroy_rest c s)"

definition wake :: "engine \<Rightarrow> outcome option" where
  "wake s = do {
     ctx \<leftarrow> (case current_coroutine s of
            Some c \<Rightarrow> do { co \<leftarrow> coroutines s c; c_context co }
          | None \<Rightarrow> root_task s);
     s1 \<leftarrow> reclaim_exited s;
     (case ctx of
        In_spawn h \<Rightarrow> Some (Returned (RHandle h) s1)
      | In_transfer k \<Rightarrow> resume_cont k s1) }"

section \<open>The interface of routines.h\<close>

text \<open>
  \<open>routine_entry\<close> up to the call of the entrypoint: it runs on the new stack, entered
  through \<open>call_on_stack\<close>, while \<open>current_coroutine\<close> is still the spawning coroutine.
  Control is in the new coroutine from here on.
\<close>

definition routine_entry :: "addr \<Rightarrow> engine \<Rightarrow> outcome option" where
  "routine_entry coroutine s = do {
     s1 \<leftarrow> (case current_coroutine s of
            Some cur \<Rightarrow> coroutine_enqueue ReadyQ cur s
          | None \<Rightarrow> Some s);
     Some (Switched (s1\<lparr>current_coroutine := Some coroutine\<rparr>)) }"

text \<open>
  \<open>routines_spawn\<close> up to \<open>call_on_stack\<close>; \<open>coroutine\<close> and \<open>region\<close> are the addresses
  that \<open>malloc\<close> returns for the record and (when no unused stack is left) for the stack.
  The compound literal leaves every member it does not name zero: the state is the first
  tag of the enum, and all pointers are NULL. The rest of the function runs when the
  caller is entered again (\<open>wake\<close> at \<open>In_spawn\<close>).
\<close>

definition routines_spawn ::
  "addr option \<Rightarrow> addr option \<Rightarrow> addr \<Rightarrow> addr \<Rightarrow> engine \<Rightarrow> outcome option" where
  "routines_spawn task arg coroutine region s = do {
     assert (task \<noteq> None);
     let (stack, s0) = alloc_stack region s;
     let s1 = s0\<lparr>coroutines := (coroutines s0)(coroutine \<mapsto>
                 \<lparr>c_entrypoint = task, c_arg = arg, c_stack_base = stack,
                  c_context = None, c_state = ROUTINES_COMPLETED,
                  c_join_queue = \<lparr>head = None, tail = None\<rparr>,
                  c_message = None, c_queue = None, c_prev = None, c_next = None\<rparr>)\<rparr>;
     s2 \<leftarrow> (case current_coroutine s1 of
            Some self \<Rightarrow> do {
              s' \<leftarrow> coroutine_enqueue ReadyQ self s1;
              co_upd self (\<lambda>c. c\<lparr>c_context := Some (In_spawn coroutine)\<rparr>) s' }
          | None \<Rightarrow> Some (s1\<lparr>root_task := Some (In_spawn coroutine)\<rparr>));
     routine_entry coroutine s2 }"

definition routines_destroy :: "addr option \<Rightarrow> engine \<Rightarrow> outcome option" where
  "routines_destroy coroutine s = do {
     a \<leftarrow> coroutine;
     out \<leftarrow> suspend_then (Then_destroy a) (Some a) s;
     (case out of
        Switched s' \<Rightarrow> Some (Switched s')
      | Returned v s1 \<Rightarrow> destroy_rest a s1) }"

text \<open>\<open>routine_entry\<close> from the return of the entrypoint on.\<close>

definition routine_exit :: "addr \<Rightarrow> engine \<Rightarrow> outcome option" where
  "routine_exit coroutine s = do {
     s1 \<leftarrow> resume_all (JoinQ coroutine) s;
     s2 \<leftarrow> co_upd coroutine (\<lambda>c. c\<lparr>c_state := ROUTINES_COMPLETED\<rparr>)
            (s1\<lparr>exited_coroutine := Some coroutine\<rparr>);
     (target, s3) \<leftarrow> coroutine_dequeue ReadyQ s2;
     Some (Switched (s3\<lparr>current_coroutine := target\<rparr>)) }"

definition routines_self :: "engine \<Rightarrow> addr option" where
  "routines_self s = current_coroutine s"

definition routines_state :: "addr option \<Rightarrow> engine \<Rightarrow> routines_state_t option" where
  "routines_state coroutine s = do {
     a \<leftarrow> coroutine;
     c \<leftarrow> coroutines s a;
     Some (c_state c) }"

definition routines_yield :: "engine \<Rightarrow> outcome option" where
  "routines_yield s = transfer (Some ReadyQ) ROUTINES_RUNNING None Ret_unit s"

definition routines_join :: "addr option \<Rightarrow> engine \<Rightarrow> outcome option" where
  "routines_join coroutine s = do {
     assert (current_coroutine s \<noteq> None);
     a \<leftarrow> coroutine;
     transfer (Some (JoinQ a)) ROUTINES_BLOCKED_JOIN None Ret_unit s }"

definition routines_suspend_self :: "engine \<Rightarrow> outcome option" where
  "routines_suspend_self s = routines_suspend (routines_self s) s"

text \<open>The first loop of \<open>routines_queue_destroy\<close>.\<close>

partial_function (option) discard_messages :: "addr \<Rightarrow> engine \<Rightarrow> engine option" where
  "discard_messages queue s =
     Option.bind (pending_messages (Some queue) s) (\<lambda>pending.
       if pending
       then Option.bind (dequeue_message queue None s)
              (\<lambda>r. discard_messages queue (snd (snd r)))
       else Some s)"

declare resume_all.simps [code]
declare discard_messages.simps [code]

definition routines_queue_destroy :: "addr option \<Rightarrow> engine \<Rightarrow> engine option" where
  "routines_queue_destroy queue s = do {
     q \<leftarrow> queue;
     s1 \<leftarrow> discard_messages q s;
     s2 \<leftarrow> resume_all (RecvQ q) s1;
     mq \<leftarrow> queues s2 q;
     Some (s2\<lparr>queues := (queues s2)(q := None)\<rparr>) }"

definition routines_send :: "addr option \<Rightarrow> addr option \<Rightarrow> addr \<Rightarrow> engine \<Rightarrow> outcome option" where
  "routines_send queue message new_tail s = do {
     assert (current_coroutine s \<noteq> None);
     q \<leftarrow> queue;
     send q message (current_coroutine s) None new_tail Ret_unit s }"

definition routines_wait :: "addr option \<Rightarrow> engine \<Rightarrow> outcome option" where
  "routines_wait queue s = do {
     assert (current_coroutine s \<noteq> None);
     q \<leftarrow> queue;
     recv q None s }"

definition routines_signal :: "addr option \<Rightarrow> addr option \<Rightarrow> addr \<Rightarrow> engine \<Rightarrow> outcome option" where
  "routines_signal queue message new_tail s = do {
     assert (current_coroutine s \<noteq> None);
     q \<leftarrow> queue;
     send q message None None new_tail Ret_unit s }"

definition routines_read :: "addr option \<Rightarrow> engine \<Rightarrow> outcome option" where
  "routines_read queue s = do {
     assert (current_coroutine s \<noteq> None);
     q \<leftarrow> queue;
     pending \<leftarrow> pending_messages (Some q) s;
     if pending then recv q None s else Some (Returned (RMsg None None) s) }"

definition routines_call ::
  "addr option \<Rightarrow> addr option \<Rightarrow> addr option \<Rightarrow> addr \<Rightarrow> engine \<Rightarrow> outcome option" where
  "routines_call send_queue message reply_queue new_tail s = do {
     assert (current_coroutine s \<noteq> None);
     sq \<leftarrow> send_queue;
     rq \<leftarrow> reply_queue;
     out \<leftarrow> send sq message None (Some rq) new_tail (Then_recv rq) s;
     (case out of
        Switched s' \<Rightarrow> Some (Switched s')
      | Returned v s' \<Rightarrow> recv rq None s') }"

definition routines_recv :: "addr option \<Rightarrow> addr option option \<Rightarrow> engine \<Rightarrow> outcome option" where
  "routines_recv recv_queue reply_queue s = do {
     assert (current_coroutine s \<noteq> None);
     q \<leftarrow> recv_queue;
     recv q reply_queue s }"

definition routines_post ::
  "addr option \<Rightarrow> addr option \<Rightarrow> addr option \<Rightarrow> addr \<Rightarrow> engine \<Rightarrow> outcome option" where
  "routines_post send_queue message reply_queue new_tail s = do {
     assert (current_coroutine s \<noteq> None);
     q \<leftarrow> send_queue;
     send q message None reply_queue new_tail Ret_unit s }"

section \<open>The pending messages of a queue as a list\<close>

text \<open>
  \<open>msg_chain s p es\<close>: following \<open>next\<close> from the pointer \<open>p\<close> visits exactly the entries
  \<open>es\<close>, all allocated, and ends at NULL. \<open>mq_inv s q es\<close>: the pending entries of the
  queue \<open>q\<close> are \<open>es\<close>, from the head, and the tail cursor points at the \<open>next\<close> member of
  the last one (at the queue's \<open>head\<close> when there is none).
\<close>

fun msg_chain :: "engine \<Rightarrow> addr option \<Rightarrow> addr list \<Rightarrow> bool" where
  "msg_chain s p [] = (p = None)"
| "msg_chain s p (e # es) =
     (p = Some e \<and> (case messages s e of None \<Rightarrow> False | Some m \<Rightarrow> msg_chain s (m_next m) es))"

definition mq_inv :: "engine \<Rightarrow> addr \<Rightarrow> addr list \<Rightarrow> bool" where
  "mq_inv s q es =
     (case queues s q of
        None \<Rightarrow> False
      | Some mq \<Rightarrow>
          msg_chain s (q_head mq) es \<and> distinct es \<and>
          q_tail mq = (if es = [] then HeadOf q else NextOf (last es)))"

definition payloads :: "engine \<Rightarrow> addr list \<Rightarrow> addr option list" where
  "payloads s es = map (\<lambda>e. case messages s e of None \<Rightarrow> None | Some m \<Rightarrow> m_message m) es"

text \<open>
  A run of admissions to and deliveries from one queue, by whichever control flow is
  current at each step, interleaved with the operations that move coroutines. \<open>Admit\<close>
  is a call of \<open>enqueue_message\<close> (the entry's address is one that \<open>malloc\<close> may
  return: it is not allocated), \<open>Deliver\<close> a call of \<open>dequeue_message\<close>; every send,
  signal, call and post admits through the first, every wait, recv and read delivers
  through the second. \<open>Suspend\<close>, \<open>Resume\<close> and \<open>Transfer\<close> are calls of
  \<open>routines_suspend\<close>, \<open>routines_resume\<close> and \<open>transfer\<close>. The run returns the
  payloads admitted and the payloads delivered, in order; a call of \<open>dequeue_message\<close>
  that finds no head entry delivers nothing.
\<close>

datatype mq_op =
    Admit "addr option" "addr option" "addr option" addr cont
  | Deliver "addr option option"
  | Suspend "addr option"
  | Resume "addr option"
  | Transfer "cq_ptr option" routines_state_t "addr option" cont

fun run_mq ::
  "addr \<Rightarrow> mq_op list \<Rightarrow> engine \<Rightarrow> (addr option list \<times> addr option list \<times> engine) option" where
  "run_mq q [] s = Some ([], [], s)"
| "run_mq q (Admit message sender reply_queue new_tail k # ops) s = do {
     assert (messages s new_tail = None);
     out \<leftarrow> enqueue_message q message sender reply_queue new_tail k s;
     (admitted, delivered, s') \<leftarrow> run_mq q ops (engine_of out);
     Some (message # admitted, delivered, s') }"
| "run_mq q (Deliver reply_queue # ops) s = do {
     pending \<leftarrow> pending_messages (Some q) s;
     (message, cell, s1) \<leftarrow> dequeue_message q reply_queue s;
     (admitted, delivered, s') \<leftarrow> run_mq q ops s1;
     Some (admitted, if pending then message # delivered else delivered, s') }"
| "run_mq q (Suspend coroutine # ops) s = do {
     out \<leftarrow> routines_suspend coroutine s;
     run_mq q ops (engine_of out) }"
| "run_mq q (Resume coroutine # ops) s = do {
     s1 \<leftarrow> routines_resume coroutine s;
     run_mq q ops s1 }"
| "run_mq q (Transfer queue state coroutine k # ops) s = do {
     out \<leftarrow> transfer queue state coroutine k s;
     run_mq q ops (engine_of out) }"

section \<open>What an operation leaves alone\<close>

text \<open>
  The members of a coroutine that the queue operations never write, and the members of a
  message queue and of an entry that make up the list of pending messages.
  \<open>links_only s s'\<close>: from \<open>s\<close> to \<open>s'\<close> nothing has changed but the queue links of
  coroutines (\<open>next\<close>, \<open>prev\<close>, \<open>queue\<close>) and the heads and tails of coroutine queues.
  \<open>mq_same s s'\<close>: the pending entries of every message queue, their order and their
  payloads are the same in \<open>s\<close> and \<open>s'\<close>.
\<close>

definition co_core ::
  "routines_coroutine \<Rightarrow>
     addr option \<times> addr option \<times> addr option \<times> jmp_buf option \<times> routines_state_t \<times> addr option" where
  "co_core c = (c_entrypoint c, c_arg c, c_stack_base c, c_context c, c_state c, c_message c)"

definition mq_core :: "routines_queue \<Rightarrow> addr option \<times> msg_cursor" where
  "mq_core mq = (q_head mq, q_tail mq)"

definition msg_core :: "message_t \<Rightarrow> addr option \<times> addr option \<times> addr option" where
  "msg_core m = (m_message m, m_reply_queue m, m_next m)"

definition links_only :: "engine \<Rightarrow> engine \<Rightarrow> bool" where
  "links_only s s' \<longleftrightarrow>
     messages s' = messages s \<and> root_task s' = root_task s \<and>
     current_coroutine s' = current_coroutine s \<and>
     exited_coroutine s' = exited_coroutine s \<and>
     unused_stacks s' = unused_stacks s \<and>
     (\<forall>a. map_option co_core (coroutines s' a) = map_option co_core (coroutines s a)) \<and>
     (\<forall>q. map_option mq_core (queues s' q) = map_option mq_core (queues s q))"

definition mq_same :: "engine \<Rightarrow> engine \<Rightarrow> bool" where
  "mq_same s s' \<longleftrightarrow>
     (\<forall>e. map_option msg_core (messages s' e) = map_option msg_core (messages s e)) \<and>
     (\<forall>q. map_option mq_core (queues s' q) = map_option mq_core (queues s q))"

text \<open>
  \<open>co_frame S s s'\<close>: from \<open>s\<close> to \<open>s'\<close> every coroutine is still allocated, no
  coroutine has been recorded as the sender of an entry (its \<open>message\<close> pointer is as it
  was, or NULL), and a state tag that has changed has changed to one of the tags in \<open>S\<close>.
  \<open>no_new_senders s s'\<close>: an entry of \<open>s'\<close> that records a sender is an entry of \<open>s\<close>
  that recorded the same sender.
  \<open>frame S s s'\<close>: all of this, and the pending messages of every queue are the same.
\<close>

definition co_frame :: "routines_state_t set \<Rightarrow> engine \<Rightarrow> engine \<Rightarrow> bool" where
  "co_frame S s s' \<longleftrightarrow>
     (\<forall>a c. coroutines s a = Some c \<longrightarrow>
        (\<exists>c'. coroutines s' a = Some c' \<and>
           (c_message c' = c_message c \<or> c_message c' = None) \<and>
           (c_state c' = c_state c \<or> c_state c' \<in> S)))"

definition no_new_senders :: "engine \<Rightarrow> engine \<Rightarrow> bool" where
  "no_new_senders s s' \<longleftrightarrow>
     (\<forall>e m'. messages s' e = Some m' \<longrightarrow>
        m_sender m' = None \<or> (\<exists>m. messages s e = Some m \<and> m_sender m = m_sender m'))"

definition frame :: "routines_state_t set \<Rightarrow> engine \<Rightarrow> engine \<Rightarrow> bool" where
  "frame S s s' \<longleftrightarrow> mq_same s s' \<and> co_frame S s s' \<and> no_new_senders s s'"

section \<open>Blocked senders and the ready queue\<close>

text \<open>
  \<open>parked_sender s e a\<close>: coroutine \<open>a\<close> is blocked in a send on the entry \<open>e\<close>
  and is in no coroutine queue: it is not the current coroutine, its state is
  BlockedSend, its \<open>message\<close> pointer points into \<open>e\<close>, and its queue pointer and
  both its links are NULL (\<open>coroutine_enqueue\<close> asserts the latter of a coroutine it is
  given). \<open>senders_parked s es\<close>: every entry of \<open>es\<close> is allocated and its sender,
  if it records one, is parked on it.
  \<open>senders_of s es\<close>: the senders recorded in the entries \<open>es\<close>.
  \<open>ready_tail_linked s\<close>: the tail of the ready queue, if any, is an allocated coroutine
  whose queue pointer is the ready queue. \<open>resumed s a\<close>: coroutine \<open>a\<close> is Running,
  its queue pointer is the ready queue, and its \<open>message\<close> pointer is NULL.
\<close>

definition parked_sender :: "engine \<Rightarrow> addr \<Rightarrow> addr \<Rightarrow> bool" where
  "parked_sender s e a \<longleftrightarrow>
     current_coroutine s \<noteq> Some a \<and>
     (case coroutines s a of
        None \<Rightarrow> False
      | Some c \<Rightarrow>
          c_state c = ROUTINES_BLOCKED_SEND \<and> c_message c = Some e \<and>
          c_queue c = None \<and> c_next c = None \<and> c_prev c = None)"

definition entry_parked :: "engine \<Rightarrow> addr \<Rightarrow> bool" where
  "entry_parked s e =
     (case messages s e of
        None \<Rightarrow> False
      | Some m \<Rightarrow> (case m_sender m of None \<Rightarrow> True | Some a \<Rightarrow> parked_sender s e a))"

definition senders_parked :: "engine \<Rightarrow> addr list \<Rightarrow> bool" where
  "senders_parked s es = list_all (entry_parked s) es"

definition sender_of :: "engine \<Rightarrow> addr \<Rightarrow> addr list" where
  "sender_of s e =
     (case messages s e of
        None \<Rightarrow> []
      | Some m \<Rightarrow> (case m_sender m of None \<Rightarrow> [] | Some a \<Rightarrow> [a]))"

definition senders_of :: "engine \<Rightarrow> addr list \<Rightarrow> addr list" where
  "senders_of s es = concat (map (sender_of s) es)"

definition ready_tail_linked :: "engine \<Rightarrow> bool" where
  "ready_tail_linked s =
     (case tail (ready_queue s) of
        None \<Rightarrow> True
      | Some t \<Rightarrow> (case coroutines s t of None \<Rightarrow> False | Some c \<Rightarrow> c_queue c = Some ReadyQ))"

definition resumed :: "engine \<Rightarrow> addr \<Rightarrow> bool" where
  "resumed s a =
     (case coroutines s a of
        None \<Rightarrow> False
      | Some c \<Rightarrow>
          c_state c = ROUTINES_RUNNING \<and> c_queue c = Some ReadyQ \<and> c_message c = None)"

section \<open>Control after a call\<close>

text \<open>
  Observations on the outcome of a call made by the current coroutine \<open>p\<close>.
  \<open>stays p out\<close>: the call has returned to \<open>p\<close>, which is still the current coroutine.
  \<open>control_to p target st queue out\<close>: control is with \<open>target\<close> (NULL is the root
  context); the call has left \<open>p\<close> exactly when \<open>target\<close> is not \<open>p\<close> itself, and
  then \<open>p\<close> is in state \<open>st\<close>, its queue pointer is \<open>queue\<close>, and it is the tail of
  that queue when it is not NULL.
\<close>

definition stays :: "addr \<Rightarrow> outcome \<Rightarrow> bool" where
  "stays p out \<longleftrightarrow> \<not> switched out \<and> current_coroutine (engine_of out) = Some p"

definition control_to ::
  "addr \<Rightarrow> addr option \<Rightarrow> routines_state_t \<Rightarrow> cq_ptr option \<Rightarrow> outcome \<Rightarrow> bool" where
  "control_to p target st queue out \<longleftrightarrow>
     current_coroutine (engine_of out) = target \<and>
     (switched out \<longleftrightarrow> target \<noteq> Some p) \<and>
     (target \<noteq> Some p \<longrightarrow>
        (case coroutines (engine_of out) p of
           None \<Rightarrow> False
         | Some c \<Rightarrow>
             c_state c = st \<and> c_queue c = queue \<and>
             (case queue of
                None \<Rightarrow> True
              | Some q \<Rightarrow> map_option tail (cq_get q (engine_of out)) = Some (Some p))))"

text \<open>
  The calls of routines.h, and the return of a coroutine from its entrypoint. \<open>perform\<close>
  makes one of them and keeps the outcome; the value that \<open>routines_self\<close>,
  \<open>routines_state\<close> and \<open>routines_queue_create\<close> return is dropped.
\<close>

datatype api_call =
    Call_spawn "addr option" "addr option" addr addr
  | Call_return
  | Call_destroy "addr option"
  | Call_self
  | Call_state "addr option"
  | Call_yield
  | Call_join "addr option"
  | Call_suspend "addr option"
  | Call_suspend_self
  | Call_resume "addr option"
  | Call_queue_create addr
  | Call_queue_destroy "addr option"
  | Call_send "addr option" "addr option" addr
  | Call_wait "addr option"
  | Call_signal "addr option" "addr option" addr
  | Call_read "addr option"
  | Call_call "addr option" "addr option" "addr option" addr
  | Call_recv "addr option" "addr option option"
  | Call_post "addr option" "addr option" "addr option" addr

fun perform :: "api_call \<Rightarrow> engine \<Rightarrow> outcome option" where
  "perform (Call_spawn task arg coroutine region) s = routines_spawn task arg coroutine region s"
| "perform Call_return s = do { p \<leftarrow> current_coroutine s; routine_exit p s }"
| "perform (Call_destroy coroutine) s = routines_destroy coroutine s"
| "perform Call_self s = (let self = routines_self s in Some (Returned RUnit s))"
| "perform (Call_state coroutine) s = do { st \<leftarrow> routines_state coroutine s; Some (Returned RUnit s) }"
| "perform Call_yield s = routines_yield s"
| "perform (Call_join coroutine) s = routines_join coroutine s"
| "perform (Call_suspend coroutine) s = routines_suspend coroutine s"
| "perform Call_suspend_self s = routines_suspend_self s"
| "perform (Call_resume coroutine) s = map_option (Returned RUnit) (routines_resume coroutine s)"
| "perform (Call_queue_create queue) s = Some (Returned RUnit (snd (routines_queue_create queue s)))"
| "perform (Call_queue_destroy queue) s = map_option (Returned RUnit) (routines_queue_destroy queue s)"
| "perform (Call_send queue message new_tail) s = routines_send queue message new_tail s"
| "perform (Call_wait queue) s = routines_wait queue s"
| "perform (Call_signal queue message new_tail) s = routines_signal queue message new_tail s"
| "perform (Call_read queue) s = routines_read queue s"
| "perform (Call_call send_queue message reply_queue new_tail) s =
     routines_call send_queue message reply_queue new_tail s"
| "perform (Call_recv recv_queue reply_queue) s = routines_recv recv_queue reply_queue s"
| "perform (Call_post send_queue message reply_queue new_tail) s =
     routines_post send_queue message reply_queue new_tail s"

section \<open>Example runs\<close>

text \<open>
  Runs of the library from the initial state, used as concrete inputs. Each line is one
  call, made by the control flow that is current at that point; \<open>wake\<close> is that control
  flow coming back from \<open>longjmp\<close>. Queues live at addresses 10 and 11, coroutines at 1
  and 2, message entries at 20 and 21.
\<close>

text \<open>Root creates a queue and spawns coroutine 1; control is in coroutine 1.\<close>

definition spawned_run :: "engine option" where
  "spawned_run = do {
     let s0 = snd (routines_queue_create 10 initial_engine);
     let s1 = snd (routines_queue_create 11 s0);
     o1 \<leftarrow> routines_spawn (Some 7) None 1 1000 s1;
     Some (engine_of o1) }"

text \<open>Coroutine 1 then receives on the empty queue 10, its reply-queue variable holding NULL; root returns from \<open>routines_spawn\<close>.\<close>

definition waiting_run :: "engine option" where
  "waiting_run = do {
     s1 \<leftarrow> spawned_run;
     o2 \<leftarrow> routines_recv (Some 10) (Some None) s1;
     o3 \<leftarrow> wake (engine_of o2);
     Some (engine_of o3) }"

text \<open>Coroutine 1 instead sends the payload 99 on queue 10; root returns from \<open>routines_spawn\<close>.\<close>

definition sending_run :: "engine option" where
  "sending_run = do {
     s1 \<leftarrow> spawned_run;
     o2 \<leftarrow> routines_send (Some 10) (Some 99) 20 s1;
     o3 \<leftarrow> wake (engine_of o2);
     Some (engine_of o3) }"

text \<open>After \<open>sending_run\<close>, root destroys queue 10.\<close>

definition destroyed_run :: "engine option" where
  "destroyed_run = do {
     s1 \<leftarrow> sending_run;
     routines_queue_destroy (Some 10) s1 }"

text \<open>
  After \<open>waiting_run\<close>, root resumes coroutine 1 and spawns coroutine 2; control is in
  coroutine 2, and coroutine 1 is on the ready queue.
\<close>

definition crowded_run :: "engine option" where
  "crowded_run = do {
     s1 \<leftarrow> waiting_run;
     s2 \<leftarrow> routines_resume (Some 1) s1;
     o3 \<leftarrow> routines_spawn (Some 8) None 2 2000 s2;
     Some (engine_of o3) }"

text \<open>
  Coroutine 2 then posts the payload 77 with reply queue 11 on queue 10 and yields;
  control arrives in coroutine 1, inside its \<open>routines_recv\<close>.
\<close>

definition resumed_run :: "engine option" where
  "resumed_run = do {
     s3 \<leftarrow> crowded_run;
     o4 \<leftarrow> routines_post (Some 10) (Some 77) (Some 11) 20 s3;
     o5 \<leftarrow> routines_yield (engine_of o4);
     Some (engine_of o5) }"

text \<open>After \<open>waiting_run\<close>, root spawns coroutine 2; control is in coroutine 2.\<close>

definition served_run :: "engine option" where
  "served_run = do {
     s1 \<leftarrow> waiting_run;
     o2 \<leftarrow> routines_spawn (Some 8) None 2 2000 s1;
     Some (engine_of o2) }"

text \<open>Coroutine 1, just spawned, calls \<open>routines_call\<close> on queue 10 with reply queue 11.\<close>

definition calling_run :: "outcome option" where
  "calling_run = do {
     s1 \<leftarrow> spawned_run;
     routines_call (Some 10) (Some 99) (Some 11) 20 s1 }"

text \<open>Coroutine 1, just spawned, spawns coroutine 2; control is in coroutine 2.\<close>

definition nested_run :: "engine option" where
  "nested_run = do {
     s1 \<leftarrow> spawned_run;
     o2 \<leftarrow> routines_spawn (Some 8) None 2 2000 s1;
     Some (engine_of o2) }"

text \<open>Coroutine 2 then waits on the empty queue 10; coroutine 1 returns from \<open>routines_spawn\<close>.\<close>

definition parked_child_run :: "engine option" where
  "parked_child_run = do {
     s2 \<leftarrow> nested_run;
     o3 \<leftarrow> routines_wait (Some 10) s2;
     o4 \<leftarrow> wake (engine_of o3);
     Some (engine_of o4) }"

text \<open>
  Coroutine 1, just spawned, receives on the empty queue 10 with its reply-queue variable
  holding queue 11; root returns from \<open>routines_spawn\<close>.
\<close>

definition holding_run :: "engine option" where
  "holding_run = do {
     s1 \<leftarrow> spawned_run;
     o2 \<leftarrow> routines_recv (Some 10) (Some (Some 11)) s1;
     o3 \<leftarrow> wake (engine_of o2);
     Some (engine_of o3) }"

text \<open>
  Root then resumes coroutine 1 and yields; control arrives in coroutine 1, inside its
  \<open>routines_recv\<close>, with nothing pending on queue 10.
\<close>

definition unwritten_run :: "engine option" where
  "unwritten_run = do {
     s1 \<leftarrow> holding_run;
     s2 \<leftarrow> routines_resume (Some 1) s1;
     o3 \<leftarrow> routines_yield s2;
     Some (engine_of o3) }"

text \<open>
  After \<open>served_run\<close>, coroutine 2 waits on the empty queue 11 and root returns from
  \<open>routines_spawn\<close>: coroutines 1 and 2 are both parked as receivers.
\<close>

definition two_parked_run :: "engine option" where
  "two_parked_run = do {
     s1 \<leftarrow> served_run;
     o2 \<leftarrow> routines_wait (Some 11) s1;
     o3 \<leftarrow> wake (engine_of o2);
     Some (engine_of o3) }"

text \<open>
  Root then resumes coroutine 1, resumes coroutine 2 and yields: coroutine 1 is taken
  from the ready queue and returns from its \<open>routines_recv\<close>; coroutine 2 is on the
  ready queue.
\<close>

definition two_ready_run :: "engine option" where
  "two_ready_run = do {
     s1 \<leftarrow> two_parked_run;
     s2 \<leftarrow> routines_resume (Some 1) s1;
     s3 \<leftarrow> routines_resume (Some 2) s2;
     o4 \<leftarrow> routines_yield s3;
     o5 \<leftarrow> wake (engine_of o4);
     Some (engine_of o5) }"

text \<open>Coroutine 1 then suspends coroutine 2.\<close>

definition suspended_run :: "engine option" where
  "suspended_run = do {
     s1 \<leftarrow> two_ready_run;
     o2 \<leftarrow> routines_suspend (Some 2) s1;
     Some (engine_of o2) }"

text \<open>
  What the examples look at: the state tag, queue and message pointer of a coroutine
  (\<open>observe\<close>), and its queue pointer with the two links (\<open>links\<close>).
\<close>

definition observe :: "addr \<Rightarrow> engine \<Rightarrow> (routines_state_t \<times> cq_ptr option \<times> addr option) option" where
  "observe a s = map_option (\<lambda>c. (c_state c, c_queue c, c_message c)) (coroutines s a)"

definition links :: "addr \<Rightarrow> engine \<Rightarrow> (cq_ptr option \<times> addr option \<times> addr option) option" where
  "links a s = map_option (\<lambda>c. (c_queue c, c_prev c, c_next c)) (coroutines s a)"

text \<open>The value a call returned, when it has returned.\<close>

fun returned :: "outcome \<Rightarrow> retval option" where
  "returned (Returned v s) = Some v"
| "returned (Switched s) = None"

text \<open>
  A run on queue 10: two admissions, the second by coroutine 1 as a blocking sender, a
  delivery, the suspension and resumption of the blocked sender, an admission that reuses
  the freed address, a yield, three deliveries, an admission of a NULL payload.
\<close>

definition fifo_ops :: "mq_op list" where
  "fifo_ops =
     [Admit (Some 5) None None 20 Ret_unit,
      Admit (Some 6) (Some 1) (Some 11) 21 Ret_unit,
      Deliver None,
      Suspend (Some 1),
      Resume (Some 1),
      Admit (Some 7) None None 20 Ret_unit,
      Transfer (Some ReadyQ) ROUTINES_RUNNING None Ret_unit,
      Deliver (Some None),
      Deliver None,
      Deliver None,
      Admit None None None 22 Ret_unit]"

section \<open>Basic facts about the memory operations\<close>

lemmas mem_defs = assert_def co_upd_def mq_upd_def msg_upd_def cq_get_def cq_upd_def

lemma bindE:
  assumes "Option.bind f g = Some x"
  obtains y where "f = Some y" and "g y = Some x"
  using assms by (auto simp: bind_eq_Some_conv)

lemma assert_Some [simp]: "assert b = Some u \<longleftrightarrow> b"
  by (simp add: assert_def)

lemma co_upd_Some:
  "co_upd a f s = Some s' \<longleftrightarrow>
     (\<exists>c. coroutines s a = Some c \<and> s' = s\<lparr>coroutines := (coroutines s)(a \<mapsto> f c)\<rparr>)"
  by (auto simp: co_upd_def split: option.splits)

lemma mq_upd_Some:
  "mq_upd a f s = Some s' \<longleftrightarrow>
     (\<exists>q. queues s a = Some q \<and> s' = s\<lparr>queues := (queues s)(a \<mapsto> f q)\<rparr>)"
  by (auto simp: mq_upd_def split: option.splits)

lemma msg_upd_Some:
  "msg_upd a f s = Some s' \<longleftrightarrow>
     (\<exists>m. messages s a = Some m \<and> s' = s\<lparr>messages := (messages s)(a \<mapsto> f m)\<rparr>)"
  by (auto simp: msg_upd_def split: option.splits)

lemma links_only_refl [simp]: "links_only s s"
  by (simp add: links_only_def)

lemma links_only_trans: "links_only s s1 \<Longrightarrow> links_only s1 s2 \<Longrightarrow> links_only s s2"
  by (simp add: links_only_def)

lemma co_upd_links:
  assumes "co_upd a f s = Some s'" and "\<And>c. co_core (f c) = co_core c"
  shows "links_only s s'"
  using assms by (auto simp: co_upd_Some links_only_def)

lemma cq_upd_links:
  assumes "cq_upd p f s = Some s'"
  shows "links_only s s'"
  using assms
  by (cases p) (auto simp: cq_upd_def co_upd_Some mq_upd_Some links_only_def co_core_def mq_core_def)

lemma co_upd_links':
  "co_upd a f s = Some s' \<Longrightarrow> (\<forall>c. co_core (f c) = co_core c) \<Longrightarrow> links_only s s'"
  by (auto simp: co_upd_Some links_only_def)

lemma coroutine_enqueue_links:
  assumes "coroutine_enqueue queue a s = Some s'"
  shows "links_only s s'"
  using assms unfolding coroutine_enqueue_def
  by (auto split: option.splits elim!: bindE dest!: co_upd_links' cq_upd_links simp: co_core_def)
     (blast intro: links_only_trans)+

lemma coroutine_dequeue_links:
  assumes "coroutine_dequeue queue s = Some (r, s')"
  shows "links_only s s'"
  using assms unfolding coroutine_dequeue_def
  by (auto split: option.splits if_splits elim!: bindE dest!: co_upd_links' cq_upd_links simp: co_core_def)
     (blast intro: links_only_trans)+

lemma coroutine_remove_links:
  assumes "coroutine_remove a s = Some s'"
  shows "links_only s s'"
  using assms unfolding coroutine_remove_def
  by (auto split: option.splits if_splits elim!: bindE dest!: co_upd_links' cq_upd_links simp: co_core_def)
     (blast intro: links_only_trans)+

lemma links_only_current: "links_only s s' \<Longrightarrow> current_coroutine s' = current_coroutine s"
  by (simp add: links_only_def)

lemma links_only_core:
  "links_only s s' \<Longrightarrow> map_option co_core (coroutines s' a) = map_option co_core (coroutines s a)"
  by (simp add: links_only_def)

lemma links_only_coroutine:
  assumes "links_only s s'" and "coroutines s a = Some c"
  shows "\<exists>c'. coroutines s' a = Some c' \<and> c_state c' = c_state c \<and> c_message c' = c_message c \<and>
            c_context c' = c_context c \<and> c_stack_base c' = c_stack_base c"
proof -
  from links_only_core[OF assms(1), of a] assms(2)
  obtain c' where "coroutines s' a = Some c'" "co_core c' = co_core c" by auto
  then show ?thesis by (auto simp: co_core_def)
qed

lemma links_only_coroutine_rev:
  assumes "links_only s s'" and "coroutines s' a = Some c'"
  shows "\<exists>c. coroutines s a = Some c \<and> c_state c' = c_state c \<and> c_message c' = c_message c \<and>
            c_context c' = c_context c \<and> c_stack_base c' = c_stack_base c"
proof -
  from links_only_core[OF assms(1), of a] assms(2)
  obtain c where "coroutines s a = Some c" "co_core c' = co_core c"
    by (cases "coroutines s a") auto
  then show ?thesis by (auto simp: co_core_def)
qed

lemma coroutine_remove_unlinked:
  assumes "coroutine_remove a s = Some s'"
  shows "\<exists>c'. coroutines s' a = Some c' \<and> c_queue c' = None \<and> c_next c' = None \<and> c_prev c' = None"
  using assms unfolding coroutine_remove_def
  by (auto elim!: bindE simp: co_upd_Some)

text \<open>Suspending a coroutine other than the current one.\<close>

lemma suspend_other:
  assumes "Some a \<noteq> current_coroutine s" and "routines_suspend (Some a) s = Some out"
  shows "\<exists>s' c c'. out = Returned RUnit s' \<and> coroutines s a = Some c \<and> coroutines s' a = Some c' \<and>
           c_state c' = ROUTINES_SUSPENDED \<and> c_queue c' = None \<and> c_message c' = None \<and>
           c_context c' = c_context c \<and>
           current_coroutine s' = current_coroutine s"
proof -
  from assms(2) obtain c s1 c1 s2 s3 where
    c: "coroutines s a = Some c"
    and s1: "(case c_message c of
            Some e \<Rightarrow> do {
              s' \<leftarrow> msg_upd e (\<lambda>m. m\<lparr>m_sender := None\<rparr>) s;
              co_upd a (\<lambda>c. c\<lparr>c_message := None\<rparr>) s' }
          | None \<Rightarrow> Some s) = Some s1"
    and c1: "coroutines s1 a = Some c1"
    and s2: "(if c_queue c1 \<noteq> None then coroutine_remove a s1 else Some s1) = Some s2"
    and s3: "co_upd a (\<lambda>c. c\<lparr>c_state := ROUTINES_SUSPENDED\<rparr>) s2 = Some s3"
    and out: "(if Some a = current_coroutine s3
     then transfer None ROUTINES_SUSPENDED None Ret_unit s3
     else Some (Returned RUnit s3)) = Some out"
    unfolding routines_suspend_def suspend_then_def by (auto elim!: bindE)
  have 1: "current_coroutine s1 = current_coroutine s \<and> c_message c1 = None \<and> c_context c1 = c_context c"
    using s1 c c1 by (auto split: option.splits elim!: bindE simp: co_upd_Some msg_upd_Some)
  have l: "links_only s1 s2"
    using s2 by (auto split: if_splits dest: coroutine_remove_links)
  from links_only_coroutine[OF l c1] obtain c2 where
    c2: "coroutines s2 a = Some c2" "c_message c2 = c_message c1" "c_context c2 = c_context c1" by blast
  have q2: "c_queue c2 = None"
    using s2 c1 c2 by (auto split: if_splits dest: coroutine_remove_unlinked)
  have 3: "current_coroutine s3 = current_coroutine s"
    using s3 1 links_only_current[OF l] by (auto simp: co_upd_Some)
  with out assms(1) have "out = Returned RUnit s3" by simp
  moreover have "coroutines s3 a = Some (c2\<lparr>c_state := ROUTINES_SUSPENDED\<rparr>)"
    using s3 c2 by (auto simp: co_upd_Some)
  ultimately show ?thesis using c c2 q2 1 3 by simp
qed

section \<open>Frames\<close>

lemma mq_same_refl [simp]: "mq_same s s"
  by (simp add: mq_same_def)

lemma mq_same_trans: "mq_same s s1 \<Longrightarrow> mq_same s1 s2 \<Longrightarrow> mq_same s s2"
  by (simp add: mq_same_def)

lemma co_frame_refl [simp]: "co_frame S s s"
  by (simp add: co_frame_def)

lemma co_frame_trans:
  assumes "co_frame S s s1" and "co_frame S s1 s2"
  shows "co_frame S s s2"
  unfolding co_frame_def
proof (intro allI impI)
  fix a c
  assume "coroutines s a = Some c"
  with assms(1) obtain c1 where c1: "coroutines s1 a = Some c1"
    "c_message c1 = c_message c \<or> c_message c1 = None"
    "c_state c1 = c_state c \<or> c_state c1 \<in> S"
    unfolding co_frame_def by blast
  with assms(2) obtain c2 where c2: "coroutines s2 a = Some c2"
    "c_message c2 = c_message c1 \<or> c_message c2 = None"
    "c_state c2 = c_state c1 \<or> c_state c2 \<in> S"
    unfolding co_frame_def by blast
  from c1(2,3) c2(2,3) have "(c_message c2 = c_message c \<or> c_message c2 = None) \<and>
           (c_state c2 = c_state c \<or> c_state c2 \<in> S)"
    by auto
  with c2(1) show "\<exists>c'. coroutines s2 a = Some c' \<and>
           (c_message c' = c_message c \<or> c_message c' = None) \<and>
           (c_state c' = c_state c \<or> c_state c' \<in> S)"
    by blast
qed

lemma co_frame_mono: "co_frame S s s' \<Longrightarrow> S \<subseteq> T \<Longrightarrow> co_frame T s s'"
  unfolding co_frame_def by blast

lemma co_frame_same: "coroutines s' = coroutines s \<Longrightarrow> co_frame S s s'"
  by (simp add: co_frame_def)

lemma no_new_senders_refl [simp]: "no_new_senders s s"
  by (simp add: no_new_senders_def)

lemma no_new_senders_trans:
  assumes "no_new_senders s s1" and "no_new_senders s1 s2"
  shows "no_new_senders s s2"
  unfolding no_new_senders_def
proof (intro allI impI)
  fix e and m2 :: message_t
  assume m2: "messages s2 e = Some m2"
  show "m_sender m2 = None \<or> (\<exists>m. messages s e = Some m \<and> m_sender m = m_sender m2)"
  proof (cases "m_sender m2 = None")
    case True
    then show ?thesis by simp
  next
    case False
    from assms(2) have "messages s2 e = Some m2 \<longrightarrow>
        m_sender m2 = None \<or> (\<exists>m. messages s1 e = Some m \<and> m_sender m = m_sender m2)"
      unfolding no_new_senders_def by (elim allE)
    with m2 False obtain m1 :: message_t where
      m1: "messages s1 e = Some m1" "m_sender m1 = m_sender m2"
      by auto
    from assms(1) have "messages s1 e = Some m1 \<longrightarrow>
        m_sender m1 = None \<or> (\<exists>m. messages s e = Some m \<and> m_sender m = m_sender m1)"
      unfolding no_new_senders_def by (elim allE)
    with m1 False show ?thesis by auto
  qed
qed

lemma no_new_senders_same: "messages s' = messages s \<Longrightarrow> no_new_senders s s'"
  by (simp add: no_new_senders_def)

lemma frame_refl [simp]: "frame S s s"
  by (simp add: frame_def)

lemma frame_trans: "frame S s s1 \<Longrightarrow> frame S s1 s2 \<Longrightarrow> frame S s s2"
  unfolding frame_def by (blast intro: mq_same_trans co_frame_trans no_new_senders_trans)

lemma frame_mono: "frame S s s' \<Longrightarrow> S \<subseteq> T \<Longrightarrow> frame T s s'"
  unfolding frame_def by (blast intro: co_frame_mono)

lemma frame_co_frame: "frame S s s' \<Longrightarrow> co_frame S s s'"
  by (simp add: frame_def)

lemma frame_mq_same: "frame S s s' \<Longrightarrow> mq_same s s'"
  by (simp add: frame_def)

lemma frame_no_new_senders: "frame S s s' \<Longrightarrow> no_new_senders s s'"
  by (simp add: frame_def)

lemma links_only_frame:
  assumes "links_only s s'"
  shows "frame S s s'"
  unfolding frame_def co_frame_def
proof (intro conjI allI impI)
  show "mq_same s s'"
    using assms by (simp add: links_only_def mq_same_def)
next
  show "no_new_senders s s'"
    using assms by (simp add: links_only_def no_new_senders_def)
next
  fix a c
  assume "coroutines s a = Some c"
  from links_only_coroutine[OF assms this]
  show "\<exists>c'. coroutines s' a = Some c' \<and>
           (c_message c' = c_message c \<or> c_message c' = None) \<and>
           (c_state c' = c_state c \<or> c_state c' \<in> S)"
    by blast
qed

lemma co_upd_frame:
  assumes "co_upd a f s = Some s'"
    and "\<forall>c. (c_message (f c) = c_message c \<or> c_message (f c) = None) \<and>
            (c_state (f c) = c_state c \<or> c_state (f c) \<in> S)"
  shows "frame S s s'"
proof -
  from assms(1) obtain c where c: "coroutines s a = Some c"
    and s': "s' = s\<lparr>coroutines := (coroutines s)(a \<mapsto> f c)\<rparr>"
    by (auto simp: co_upd_Some)
  from assms(2) have "(c_message (f c) = c_message c \<or> c_message (f c) = None) \<and>
            (c_state (f c) = c_state c \<or> c_state (f c) \<in> S)" by (rule spec)
  with c s' show ?thesis
    by (auto simp: frame_def co_frame_def mq_same_def no_new_senders_def)
qed

lemma msg_upd_frame:
  assumes "msg_upd e f s = Some s'" and "\<forall>m. msg_core (f m) = msg_core m"
    and "\<forall>m. m_sender (f m) = m_sender m \<or> m_sender (f m) = None"
  shows "frame S s s'"
proof -
  from assms(1) obtain m where m: "messages s e = Some m"
    and s': "s' = s\<lparr>messages := (messages s)(e \<mapsto> f m)\<rparr>"
    by (auto simp: msg_upd_Some)
  from assms(2) have 1: "msg_core (f m) = msg_core m" by (rule spec)
  from assms(3) have 2: "m_sender (f m) = m_sender m \<or> m_sender (f m) = None" by (rule spec)
  from m s' 1 have "mq_same s s'" by (auto simp: mq_same_def)
  moreover from s' have "co_frame S s s'" by (simp add: co_frame_def)
  moreover from m s' 2 have "no_new_senders s s'" by (auto simp: no_new_senders_def)
  ultimately show ?thesis by (simp add: frame_def)
qed

lemma frame_globals [simp]:
  "frame S s (s\<lparr>current_coroutine := x\<rparr>)"
  "frame S s (s\<lparr>root_task := y\<rparr>)"
  "frame S s (s\<lparr>exited_coroutine := z\<rparr>)"
  "frame S s (s\<lparr>unused_stacks := u\<rparr>)"
  by (simp_all add: frame_def co_frame_def mq_same_def no_new_senders_def)

lemmas frame_links =
  coroutine_enqueue_links [THEN links_only_frame]
  coroutine_dequeue_links [THEN links_only_frame]
  coroutine_remove_links [THEN links_only_frame]
  cq_upd_links [THEN links_only_frame]

lemma reclaim_exited_frame:
  assumes "reclaim_exited s = Some s'"
  shows "frame S s s'"
proof (cases "exited_coroutine s")
  case None
  with assms show ?thesis by (simp add: reclaim_exited_def)
next
  case (Some x)
  with assms have "Option.bind (coroutines s x) (\<lambda>c.
      Option.bind (co_upd x (\<lambda>c. c\<lparr>c_stack_base := None\<rparr>) (free_stack (c_stack_base c) s))
        (\<lambda>s1. Some (s1\<lparr>exited_coroutine := None\<rparr>))) = Some s'"
    by (simp add: reclaim_exited_def)
  then obtain c :: routines_coroutine where "Option.bind
        (co_upd x (\<lambda>c. c\<lparr>c_stack_base := None\<rparr>) (free_stack (c_stack_base c) s))
        (\<lambda>s1. Some (s1\<lparr>exited_coroutine := None\<rparr>)) = Some s'"
    by (rule bindE)
  then obtain s1 where
    "co_upd x (\<lambda>c. c\<lparr>c_stack_base := None\<rparr>) (free_stack (c_stack_base c) s) = Some s1"
    and "Some (s1\<lparr>exited_coroutine := None\<rparr>) = Some s'"
    by (rule bindE)
  then have s': "s' = s1\<lparr>exited_coroutine := None\<rparr>" by simp
  from \<open>co_upd x _ _ = Some s1\<close> have "frame S (free_stack (c_stack_base c) s) s1"
    by (auto intro: co_upd_frame)
  moreover have "frame S s (free_stack (c_stack_base c) s)"
    by (simp add: free_stack_def push_stack_def)
  ultimately show ?thesis
    using s' by (blast intro: frame_trans frame_globals)
qed

lemma reclaim_exited_current:
  "reclaim_exited s = Some s' \<Longrightarrow> current_coroutine s' = current_coroutine s"
  by (auto simp: reclaim_exited_def co_upd_Some free_stack_def push_stack_def
      split: option.splits elim!: bindE)

text \<open>The steps of \<open>transfer\<close>, one fact each.\<close>

lemma transferE:
  assumes "transfer queue st coroutine k s = Some out"
  obtains s1 target s2 s4 s5 where
    "(case current_coroutine s of
            Some me \<Rightarrow> do {
              s' \<leftarrow> co_upd me (\<lambda>c. c\<lparr>c_state := st\<rparr>) s;
              (case queue of
                 Some q \<Rightarrow> coroutine_enqueue q me s'
               | None \<Rightarrow> Some s') }
          | None \<Rightarrow> Some s) = Some s1"
    and "(case coroutine of
            None \<Rightarrow> coroutine_dequeue ReadyQ s1
          | Some c \<Rightarrow> Some (Some c, s1)) = Some (target, s2)"
    and "(case current_coroutine s of
            Some me \<Rightarrow> co_upd me (\<lambda>c. c\<lparr>c_context := Some (In_transfer k)\<rparr>)
                         (s2\<lparr>current_coroutine := target\<rparr>)
          | None \<Rightarrow> Some (s2\<lparr>current_coroutine := target, root_task := Some (In_transfer k)\<rparr>))
         = Some s4"
    and "(case target of
            Some n \<Rightarrow> co_upd n (\<lambda>c. c\<lparr>c_state := ROUTINES_RUNNING\<rparr>) s4
          | None \<Rightarrow> Some s4) = Some s5"
    and "(if target = current_coroutine s
     then do { s6 \<leftarrow> reclaim_exited s5; Some (Returned RUnit s6) }
     else Some (Switched s5)) = Some out"
  using assms unfolding transfer_def Let_def
  by (auto elim!: bindE)

lemma transfer_frame:
  assumes "transfer queue st coroutine k s = Some out"
  shows "frame {st, ROUTINES_RUNNING} s (engine_of out)"
proof -
  let ?S = "{st, ROUTINES_RUNNING}"
  from assms obtain s1 target s2 s4 s5 where
    s1: "(case current_coroutine s of
            Some me \<Rightarrow> do {
              s' \<leftarrow> co_upd me (\<lambda>c. c\<lparr>c_state := st\<rparr>) s;
              (case queue of
                 Some q \<Rightarrow> coroutine_enqueue q me s'
               | None \<Rightarrow> Some s') }
          | None \<Rightarrow> Some s) = Some s1"
    and s2: "(case coroutine of
            None \<Rightarrow> coroutine_dequeue ReadyQ s1
          | Some c \<Rightarrow> Some (Some c, s1)) = Some (target, s2)"
    and s4: "(case current_coroutine s of
            Some me \<Rightarrow> co_upd me (\<lambda>c. c\<lparr>c_context := Some (In_transfer k)\<rparr>)
                         (s2\<lparr>current_coroutine := target\<rparr>)
          | None \<Rightarrow> Some (s2\<lparr>current_coroutine := target, root_task := Some (In_transfer k)\<rparr>))
         = Some s4"
    and s5: "(case target of
            Some n \<Rightarrow> co_upd n (\<lambda>c. c\<lparr>c_state := ROUTINES_RUNNING\<rparr>) s4
          | None \<Rightarrow> Some s4) = Some s5"
    and out: "(if target = current_coroutine s
     then do { s6 \<leftarrow> reclaim_exited s5; Some (Returned RUnit s6) }
     else Some (Switched s5)) = Some out"
    by (rule transferE)
  have f1: "frame ?S s s1"
  proof (cases "current_coroutine s")
    case None
    with s1 show ?thesis by simp
  next
    case (Some me)
    with s1 obtain s' where a: "co_upd me (\<lambda>c. c\<lparr>c_state := st\<rparr>) s = Some s'"
      and b: "(case queue of Some q \<Rightarrow> coroutine_enqueue q me s' | None \<Rightarrow> Some s') = Some s1"
      by (auto elim!: bindE)
    have "frame ?S s s'" using a by (rule co_upd_frame) simp
    moreover have "frame ?S s' s1"
      using b by (auto split: option.splits intro: frame_links)
    ultimately show ?thesis by (rule frame_trans)
  qed
  have f2: "frame ?S s1 s2"
    using s2 by (auto split: option.splits intro: frame_links)
  have f4: "frame ?S s2 s4"
  proof (cases "current_coroutine s")
    case None
    with s4 have "s4 = s2\<lparr>current_coroutine := target, root_task := Some (In_transfer k)\<rparr>"
      by simp
    then show ?thesis by (simp add: frame_def co_frame_def mq_same_def no_new_senders_def)
  next
    case (Some me)
    with s4 have "frame ?S (s2\<lparr>current_coroutine := target\<rparr>) s4"
      by (auto intro: co_upd_frame)
    then show ?thesis by (blast intro: frame_trans frame_globals)
  qed
  have f5: "frame ?S s4 s5"
    using s5 by (auto split: option.splits intro: co_upd_frame)
  have f6: "frame ?S s5 (engine_of out)"
    using out by (auto split: if_splits elim!: bindE intro: reclaim_exited_frame)
  from f1 f2 f4 f5 f6 show ?thesis by (blast intro: frame_trans)
qed

lemma transfer_current:
  assumes "transfer queue st coroutine k s = Some out"
  shows "switched out \<longleftrightarrow> current_coroutine (engine_of out) \<noteq> current_coroutine s"
    and "coroutine \<noteq> None \<Longrightarrow> current_coroutine (engine_of out) = coroutine"
proof -
  from assms obtain s1 target s2 s4 s5 where
    s2: "(case coroutine of
            None \<Rightarrow> coroutine_dequeue ReadyQ s1
          | Some c \<Rightarrow> Some (Some c, s1)) = Some (target, s2)"
    and s4: "(case current_coroutine s of
            Some me \<Rightarrow> co_upd me (\<lambda>c. c\<lparr>c_context := Some (In_transfer k)\<rparr>)
                         (s2\<lparr>current_coroutine := target\<rparr>)
          | None \<Rightarrow> Some (s2\<lparr>current_coroutine := target, root_task := Some (In_transfer k)\<rparr>))
         = Some s4"
    and s5: "(case target of
            Some n \<Rightarrow> co_upd n (\<lambda>c. c\<lparr>c_state := ROUTINES_RUNNING\<rparr>) s4
          | None \<Rightarrow> Some s4) = Some s5"
    and out: "(if target = current_coroutine s
     then do { s6 \<leftarrow> reclaim_exited s5; Some (Returned RUnit s6) }
     else Some (Switched s5)) = Some out"
    by (rule transferE)
  have 4: "current_coroutine s4 = target"
    using s4 by (auto split: option.splits simp: co_upd_Some)
  have 5: "current_coroutine s5 = target"
    using s5 4 by (auto split: option.splits simp: co_upd_Some)
  have 6: "current_coroutine (engine_of out) = target"
    using out 5 by (auto split: if_splits elim!: bindE dest: reclaim_exited_current)
  show "switched out \<longleftrightarrow> current_coroutine (engine_of out) \<noteq> current_coroutine s"
    using out 6 by (auto split: if_splits elim!: bindE)
  show "coroutine \<noteq> None \<Longrightarrow> current_coroutine (engine_of out) = coroutine"
    using s2 6 by (auto split: option.splits)
qed

text \<open>When \<open>transfer\<close> leaves the caller, the caller's context holds the continuation.\<close>

lemma transfer_saves_context:
  assumes "transfer queue st coroutine k s = Some (Switched s')"
    and "current_coroutine s = Some p"
  shows "\<exists>c'. coroutines s' p = Some c' \<and> c_context c' = Some (In_transfer k)"
proof -
  from assms(1) obtain s1 target s2 s4 s5 where
    s4: "(case current_coroutine s of
            Some me \<Rightarrow> co_upd me (\<lambda>c. c\<lparr>c_context := Some (In_transfer k)\<rparr>)
                         (s2\<lparr>current_coroutine := target\<rparr>)
          | None \<Rightarrow> Some (s2\<lparr>current_coroutine := target, root_task := Some (In_transfer k)\<rparr>))
         = Some s4"
    and s5: "(case target of
            Some n \<Rightarrow> co_upd n (\<lambda>c. c\<lparr>c_state := ROUTINES_RUNNING\<rparr>) s4
          | None \<Rightarrow> Some s4) = Some s5"
    and out: "(if target = current_coroutine s
     then do { s6 \<leftarrow> reclaim_exited s5; Some (Returned RUnit s6) }
     else Some (Switched s5)) = Some (Switched s')"
    by (rule transferE)
  from out have t: "target \<noteq> Some p" and s': "s' = s5"
    using assms(2) by (auto split: if_splits elim!: bindE)
  from s4 assms(2) obtain c4 :: routines_coroutine where
    "coroutines s4 p = Some c4" "c_context c4 = Some (In_transfer k)"
    by (auto simp: co_upd_Some)
  with s5 t have "\<exists>c'. coroutines s5 p = Some c' \<and> c_context c' = Some (In_transfer k)"
    by (auto split: option.splits simp: co_upd_Some)
  with s' show ?thesis by simp
qed

lemma suspend_frame:
  assumes "routines_suspend h s = Some out"
  shows "frame {ROUTINES_SUSPENDED, ROUTINES_RUNNING} s (engine_of out)"
proof -
  let ?S = "{ROUTINES_SUSPENDED, ROUTINES_RUNNING}"
  from assms(1) obtain a c s1 c1 s2 s3 where
    c: "coroutines s a = Some c"
    and s1: "(case c_message c of
            Some e \<Rightarrow> do {
              s' \<leftarrow> msg_upd e (\<lambda>m. m\<lparr>m_sender := None\<rparr>) s;
              co_upd a (\<lambda>c. c\<lparr>c_message := None\<rparr>) s' }
          | None \<Rightarrow> Some s) = Some s1"
    and c1: "coroutines s1 a = Some c1"
    and s2: "(if c_queue c1 \<noteq> None then coroutine_remove a s1 else Some s1) = Some s2"
    and s3: "co_upd a (\<lambda>c. c\<lparr>c_state := ROUTINES_SUSPENDED\<rparr>) s2 = Some s3"
    and out: "(if Some a = current_coroutine s3
     then transfer None ROUTINES_SUSPENDED None Ret_unit s3
     else Some (Returned RUnit s3)) = Some out"
    unfolding routines_suspend_def suspend_then_def by (auto elim!: bindE)
  have "frame ?S s s1"
  proof (cases "c_message c")
    case None
    with s1 show ?thesis by simp
  next
    case (Some e)
    with s1 obtain s' where a: "msg_upd e (\<lambda>m. m\<lparr>m_sender := None\<rparr>) s = Some s'"
      and b: "co_upd a (\<lambda>c. c\<lparr>c_message := None\<rparr>) s' = Some s1"
      by (auto elim!: bindE)
    have "frame ?S s s'" using a by (rule msg_upd_frame) (simp_all add: msg_core_def)
    moreover have "frame ?S s' s1" using b by (rule co_upd_frame) simp
    ultimately show ?thesis by (rule frame_trans)
  qed
  moreover have "frame ?S s1 s2"
    using s2 by (auto split: if_splits intro: frame_links)
  moreover have "frame ?S s2 s3"
    using s3 by (rule co_upd_frame) simp
  moreover have "frame ?S s3 (engine_of out)"
    using out by (auto split: if_splits dest: transfer_frame)
  ultimately show ?thesis by (blast intro: frame_trans)
qed

lemma resumeE:
  assumes "routines_resume h s = Some s'"
  obtains a c s1 s2 where "h = Some a" and "Some a \<noteq> current_coroutine s"
    and "coroutines s a = Some c" and "c_state c \<noteq> ROUTINES_COMPLETED"
    and "routines_suspend (Some a) s = Some (Returned RUnit s1)"
    and "co_upd a (\<lambda>c. c\<lparr>c_state := ROUTINES_RUNNING\<rparr>) s1 = Some s2"
    and "coroutine_enqueue ReadyQ a s2 = Some s'"
proof -
  from assms obtain a c out where h: "h = Some a" and cur: "Some a \<noteq> current_coroutine s"
    and c: "coroutines s a = Some c" and st: "c_state c \<noteq> ROUTINES_COMPLETED"
    and su: "routines_suspend (Some a) s = Some out"
    and rest: "(case out of
        Switched s' \<Rightarrow> None
      | Returned v s1 \<Rightarrow> do {
          s2 \<leftarrow> co_upd a (\<lambda>c. c\<lparr>c_state := ROUTINES_RUNNING\<rparr>) s1;
          coroutine_enqueue ReadyQ a s2 }) = Some s'"
    unfolding routines_resume_def by (auto elim!: bindE)
  from suspend_other[OF cur su] obtain s1 where out: "out = Returned RUnit s1" by blast
  with rest obtain s2 where "co_upd a (\<lambda>c. c\<lparr>c_state := ROUTINES_RUNNING\<rparr>) s1 = Some s2"
    and "coroutine_enqueue ReadyQ a s2 = Some s'"
    by (auto elim!: bindE)
  with h cur c st su out show thesis using that by blast
qed

lemma resume_frame:
  assumes "routines_resume h s = Some s'"
  shows "frame {ROUTINES_SUSPENDED, ROUTINES_RUNNING} s s'"
proof -
  let ?S = "{ROUTINES_SUSPENDED, ROUTINES_RUNNING}"
  from assms obtain a s1 s2 where
    su: "routines_suspend (Some a) s = Some (Returned RUnit s1)"
    and s2: "co_upd a (\<lambda>c. c\<lparr>c_state := ROUTINES_RUNNING\<rparr>) s1 = Some s2"
    and s': "coroutine_enqueue ReadyQ a s2 = Some s'"
    by (rule resumeE)
  from suspend_frame[OF su] have "frame ?S s s1" by simp
  moreover have "frame ?S s1 s2" using s2 by (rule co_upd_frame) simp
  moreover have "frame ?S s2 s'" using s' by (rule frame_links)
  ultimately show ?thesis by (blast intro: frame_trans)
qed

lemma resume_current:
  assumes "routines_resume h s = Some s'"
  shows "current_coroutine s' = current_coroutine s"
proof -
  from assms obtain a s1 s2 where cur: "Some a \<noteq> current_coroutine s" and
    su: "routines_suspend (Some a) s = Some (Returned RUnit s1)"
    and s2: "co_upd a (\<lambda>c. c\<lparr>c_state := ROUTINES_RUNNING\<rparr>) s1 = Some s2"
    and s': "coroutine_enqueue ReadyQ a s2 = Some s'"
    by (rule resumeE)
  from suspend_other[OF cur su] have "current_coroutine s1 = current_coroutine s" by auto
  moreover have "current_coroutine s2 = current_coroutine s1"
    using s2 by (auto simp: co_upd_Some)
  moreover have "current_coroutine s' = current_coroutine s2"
    using s' by (auto dest!: coroutine_enqueue_links simp: links_only_def)
  ultimately show ?thesis by simp
qed

section \<open>Facts about the message operations\<close>

text \<open>A send without a sender and without a parked receiver only adds the entry.\<close>

lemma enqueue_message_no_sender:
  assumes "enqueue_message q m None rq e k s = Some out"
  shows "\<exists>s'. out = Returned RUnit s' \<and> coroutines s' = coroutines s \<and>
           current_coroutine s' = current_coroutine s \<and> ready_queue s' = ready_queue s \<and>
           dom (queues s') = dom (queues s)"
  using assms unfolding enqueue_message_def Let_def
  by (auto elim!: bindE split: msg_cursor.splits if_splits simp: mq_upd_Some msg_upd_Some)

lemma dequeue_messageE:
  assumes "dequeue_message queue reply_queue s = Some (message, cell, s5)"
  obtains (empty) q where "queues s queue = Some q" and "q_head q = None"
      and "message = None" and "cell = reply_queue"
      and "s5 = s\<lparr>queues := (queues s)(queue \<mapsto> q\<lparr>q_tail := HeadOf queue\<rparr>)\<rparr>"
    | (head) q h m s1 m1 s2 where "queues s queue = Some q" and "q_head q = Some h"
      and "messages s h = Some m"
      and "(case m_sender m of Some sndr \<Rightarrow> routines_resume (Some sndr) s | None \<Rightarrow> Some s) = Some s1"
      and "messages s1 h = Some m1"
      and "mq_upd queue (\<lambda>mq. mq\<lparr>q_head := m_next m1\<rparr>) s1 = Some s2"
      and "message = m_message m"
      and "cell = (case reply_queue of Some v \<Rightarrow> Some (m_reply_queue m1) | None \<Rightarrow> None)"
      and "(if m_next m1 = None
            then mq_upd queue (\<lambda>mq. mq\<lparr>q_tail := HeadOf queue\<rparr>)
                   (s2\<lparr>messages := (messages s2)(h := None)\<rparr>)
            else Some (s2\<lparr>messages := (messages s2)(h := None)\<rparr>)) = Some s5"
proof -
  from assms obtain q message0 cell0 s4 q1 where q: "queues s queue = Some q"
    and r: "(case q_head q of
            Some h \<Rightarrow> do {
              m \<leftarrow> messages s h;
              s1 \<leftarrow> (case m_sender m of
                     Some sndr \<Rightarrow> routines_resume (Some sndr) s
                   | None \<Rightarrow> Some s);
              m1 \<leftarrow> messages s1 h;
              let cell = (case reply_queue of
                     Some v \<Rightarrow> Some (m_reply_queue m1)
                   | None \<Rightarrow> None);
              s2 \<leftarrow> mq_upd queue (\<lambda>mq. mq\<lparr>q_head := m_next m1\<rparr>) s1;
              Some (m_message m, cell, s2\<lparr>messages := (messages s2)(h := None)\<rparr>) }
          | None \<Rightarrow> Some (None, reply_queue, s)) = Some (message0, cell0, s4)"
    and q1: "queues s4 queue = Some q1"
    and fin: "(if q_head q1 = None
            then mq_upd queue (\<lambda>mq. mq\<lparr>q_tail := HeadOf queue\<rparr>) s4
            else Some s4) = Some s5"
    and res: "message = message0" "cell = cell0"
    unfolding dequeue_message_def
    by (auto elim!: bindE split: prod.splits)
  show thesis
  proof (cases "q_head q")
    case None
    with r have "message0 = None" "cell0 = reply_queue" "s4 = s" by simp_all
    with q q1 fin res None show thesis
      by (intro empty[of q]) (auto simp: mq_upd_Some)
  next
    case (Some h)
    with r obtain m s1 m1 s2 where m: "messages s h = Some m"
      and s1: "(case m_sender m of Some sndr \<Rightarrow> routines_resume (Some sndr) s | None \<Rightarrow> Some s) = Some s1"
      and m1: "messages s1 h = Some m1"
      and s2: "mq_upd queue (\<lambda>mq. mq\<lparr>q_head := m_next m1\<rparr>) s1 = Some s2"
      and r': "message0 = m_message m"
         "cell0 = (case reply_queue of Some v \<Rightarrow> Some (m_reply_queue m1) | None \<Rightarrow> None)"
         "s4 = s2\<lparr>messages := (messages s2)(h := None)\<rparr>"
      by (auto elim!: bindE simp: Let_def)
    from s2 q1 r' have hd: "q_head q1 = m_next m1"
      by (auto simp: mq_upd_Some)
    from fin have "(if m_next m1 = None
            then mq_upd queue (\<lambda>mq. mq\<lparr>q_tail := HeadOf queue\<rparr>)
                   (s2\<lparr>messages := (messages s2)(h := None)\<rparr>)
            else Some (s2\<lparr>messages := (messages s2)(h := None)\<rparr>)) = Some s5"
      unfolding hd r'(3) .
    with q Some m s1 m1 s2 r' res show thesis
      by (intro head[of q h m s1 m1 s2]) auto
  qed
qed

lemma dequeue_message_co_frame:
  assumes "dequeue_message queue reply_queue s = Some (message, cell, s5)"
  shows "co_frame {ROUTINES_SUSPENDED, ROUTINES_RUNNING} s s5"
    and "current_coroutine s5 = current_coroutine s"
    and "reply_queue = None \<Longrightarrow> cell = None"
proof -
  let ?S = "{ROUTINES_SUSPENDED, ROUTINES_RUNNING}"
  have "co_frame ?S s s5 \<and> current_coroutine s5 = current_coroutine s \<and>
          (reply_queue = None \<longrightarrow> cell = None)"
    using assms
  proof (cases rule: dequeue_messageE)
    case (empty q)
    then show ?thesis by (simp add: co_frame_same)
  next
    case (head q h m s1 m1 s2)
    have 1: "co_frame ?S s s1 \<and> current_coroutine s1 = current_coroutine s"
      using head(4)
      by (auto split: option.splits dest: resume_frame resume_current frame_co_frame)
    have 2: "coroutines s2 = coroutines s1 \<and> current_coroutine s2 = current_coroutine s1"
      using head(6) by (auto simp: mq_upd_Some)
    have 5: "coroutines s5 = coroutines s2 \<and> current_coroutine s5 = current_coroutine s2"
      using head(9) by (auto simp: mq_upd_Some split: if_splits)
    from 1 2 5 have "co_frame ?S s s5"
      by (auto simp: co_frame_def)
    with 1 2 5 head(8) show ?thesis by simp
  qed
  then show "co_frame ?S s s5" and "current_coroutine s5 = current_coroutine s"
    and "reply_queue = None \<Longrightarrow> cell = None" by simp_all
qed

lemma dequeue_returned_facts:
  assumes "dequeue_returned queue reply_queue s = Some out"
  shows "co_frame {ROUTINES_SUSPENDED, ROUTINES_RUNNING} s (engine_of out)"
    and "current_coroutine (engine_of out) = current_coroutine s"
    and "\<exists>message cell s'. out = Returned (RMsg message cell) s' \<and> (reply_queue = None \<longrightarrow> cell = None)"
proof -
  from assms obtain message cell s' where d: "dequeue_message queue reply_queue s = Some (message, cell, s')"
    and out: "out = Returned (RMsg message cell) s'"
    unfolding dequeue_returned_def by (auto elim!: bindE)
  from dequeue_message_co_frame[OF d] out
  show "co_frame {ROUTINES_SUSPENDED, ROUTINES_RUNNING} s (engine_of out)"
    and "current_coroutine (engine_of out) = current_coroutine s"
    and "\<exists>message cell s'. out = Returned (RMsg message cell) s' \<and> (reply_queue = None \<longrightarrow> cell = None)"
    by simp_all
qed

lemma transfer_returned_current:
  assumes "transfer queue st coroutine k s = Some (Returned v s')"
  shows "current_coroutine s' = current_coroutine s"
  using transfer_current(1)[OF assms] by simp

text \<open>The steps of \<open>recv\<close>.\<close>

lemma recvE:
  assumes "recv q cell s = Some out"
  obtains (pending) "pending_messages (Some q) s = Some True"
      and "dequeue_returned q cell s = Some out"
    | (parked) s' where "pending_messages (Some q) s = Some False"
      and "transfer (Some (RecvQ q)) ROUTINES_BLOCKED_RECV None (Then_dequeue q cell) s
             = Some (Switched s')"
      and "out = Switched s'"
    | (at_once) v s' where "pending_messages (Some q) s = Some False"
      and "transfer (Some (RecvQ q)) ROUTINES_BLOCKED_RECV None (Then_dequeue q cell) s
             = Some (Returned v s')"
      and "dequeue_returned q cell s' = Some out"
proof -
  from assms obtain p where p: "pending_messages (Some q) s = Some p"
    and rest: "(if \<not> p
     then do {
       out \<leftarrow> transfer (Some (RecvQ q)) ROUTINES_BLOCKED_RECV None (Then_dequeue q cell) s;
       (case out of
          Switched s' \<Rightarrow> Some (Switched s')
        | Returned v s' \<Rightarrow> dequeue_returned q cell s') }
     else dequeue_returned q cell s) = Some out"
    unfolding recv_def by (auto elim!: bindE)
  show thesis
  proof (cases p)
    case True
    with p rest show thesis by (intro pending) auto
  next
    case False
    with rest obtain o1 where t: "transfer (Some (RecvQ q)) ROUTINES_BLOCKED_RECV None (Then_dequeue q cell) s = Some o1"
      and r: "(case o1 of
          Switched s' \<Rightarrow> Some (Switched s')
        | Returned v s' \<Rightarrow> dequeue_returned q cell s') = Some out"
      by (auto elim!: bindE)
    show thesis
    proof (cases o1)
      case (Returned v s')
      with p False t r show thesis by (intro at_once[of v s']) auto
    next
      case (Switched s')
      with p False t r show thesis by (intro parked[of s']) auto
    qed
  qed
qed

lemma recv_co_frame:
  assumes "recv q cell s = Some out"
  shows "co_frame {ROUTINES_BLOCKED_RECV, ROUTINES_RUNNING, ROUTINES_SUSPENDED} s (engine_of out)"
proof -
  let ?S = "{ROUTINES_BLOCKED_RECV, ROUTINES_RUNNING, ROUTINES_SUSPENDED}"
  from assms show ?thesis
  proof (cases rule: recvE)
    case pending
    from dequeue_returned_facts(1)[OF pending(2)] show ?thesis
      by (rule co_frame_mono) auto
  next
    case (parked s')
    from transfer_frame[OF parked(2)] parked(3) show ?thesis
      by (auto dest!: frame_co_frame elim: co_frame_mono)
  next
    case (at_once v s')
    from transfer_frame[OF at_once(2)] have "co_frame ?S s s'"
      by (auto dest!: frame_co_frame elim: co_frame_mono)
    moreover from dequeue_returned_facts(1)[OF at_once(3)]
    have "co_frame ?S s' (engine_of out)" by (rule co_frame_mono) auto
    ultimately show ?thesis by (rule co_frame_trans)
  qed
qed

lemma dequeue_message_senders:
  assumes "dequeue_message queue reply_queue s = Some (message, cell, s5)"
  shows "no_new_senders s s5"
  using assms
proof (cases rule: dequeue_messageE)
  case (empty q)
  then show ?thesis by (simp add: no_new_senders_def)
next
  case (head q h m s1 m1 s2)
  have 1: "no_new_senders s s1"
    using head(4) by (auto split: option.splits dest: resume_frame frame_no_new_senders)
  have 2: "messages s2 = messages s1"
    using head(6) by (auto simp: mq_upd_Some)
  have 5: "messages s5 = (messages s2)(h := None)"
    using head(9) by (auto simp: mq_upd_Some split: if_splits)
  from 2 5 have "no_new_senders s1 s5"
    by (auto simp: no_new_senders_def)
  with 1 show ?thesis by (rule no_new_senders_trans)
qed

lemma dequeue_returned_senders:
  assumes "dequeue_returned queue reply_queue s = Some out"
  shows "no_new_senders s (engine_of out)"
  using assms unfolding dequeue_returned_def
  by (auto elim!: bindE dest: dequeue_message_senders)

lemma enqueue_message_senders:
  assumes "enqueue_message q m None rq e k s = Some out"
  shows "no_new_senders s (engine_of out)"
  using assms unfolding enqueue_message_def Let_def
  by (auto elim!: bindE split: msg_cursor.splits if_splits
        simp: mq_upd_Some msg_upd_Some no_new_senders_def)

lemma recv_senders:
  assumes "recv q cell s = Some out"
  shows "no_new_senders s (engine_of out)"
  using assms
proof (cases rule: recvE)
  case pending
  then show ?thesis by (auto dest: dequeue_returned_senders)
next
  case (parked s')
  from transfer_frame[OF parked(2)] parked(3) show ?thesis
    by (auto dest: frame_no_new_senders)
next
  case (at_once v s')
  from transfer_frame[OF at_once(2)] have "no_new_senders s s'"
    by (auto dest: frame_no_new_senders)
  moreover from dequeue_returned_senders[OF at_once(3)]
  have "no_new_senders s' (engine_of out)" .
  ultimately show ?thesis by (rule no_new_senders_trans)
qed

text \<open>The steps of a \<open>send\<close> that passes no sender.\<close>

lemma send_no_senderE:
  assumes "send sq m None rq e k s = Some out"
  obtains (rendezvous) srv s1 s2 where "coroutine_dequeue (RecvQ sq) s = Some (Some srv, s1)"
      and "enqueue_message sq m None rq e k s1 = Some (Returned RUnit s2)"
      and "transfer (Some ReadyQ) ROUTINES_RUNNING (Some srv) k s2 = Some out"
    | (queued) s1 s2 where "coroutine_dequeue (RecvQ sq) s = Some (None, s1)"
      and "enqueue_message sq m None rq e k s1 = Some (Returned RUnit s2)"
      and "out = Returned RUnit s2"
proof -
  from assms obtain server s1 where d: "coroutine_dequeue (RecvQ sq) s = Some (server, s1)"
    and rest: "(case server of
        Some srv \<Rightarrow> do {
          out \<leftarrow> enqueue_message sq m None rq e k s1;
          transfer (Some ReadyQ) ROUTINES_RUNNING (Some srv) k (engine_of out) }
      | None \<Rightarrow> enqueue_message sq m None rq e k s1) = Some out"
    unfolding send_def by (auto elim!: bindE)
  show thesis
  proof (cases server)
    case None
    with rest have e: "enqueue_message sq m None rq e k s1 = Some out" by simp
    from enqueue_message_no_sender[OF e] obtain s2 where "out = Returned RUnit s2" by blast
    with d None e show thesis by (intro queued[of s1 s2]) auto
  next
    case (Some srv)
    with rest obtain o1 where e: "enqueue_message sq m None rq e k s1 = Some o1"
      and t: "transfer (Some ReadyQ) ROUTINES_RUNNING (Some srv) k (engine_of o1) = Some out"
      by (auto elim!: bindE)
    from enqueue_message_no_sender[OF e] obtain s2 where "o1 = Returned RUnit s2" by blast
    with d Some e t show thesis by (intro rendezvous[of srv s1 s2]) auto
  qed
qed

lemma send_no_sender_frame:
  assumes "send sq m None rq e k s = Some out"
  shows "co_frame {ROUTINES_RUNNING} s (engine_of out)"
    and "no_new_senders s (engine_of out)"
proof -
  have "co_frame {ROUTINES_RUNNING} s (engine_of out) \<and> no_new_senders s (engine_of out)"
    using assms
  proof (cases rule: send_no_senderE)
    case (rendezvous srv s1 s2)
    from coroutine_dequeue_links[OF rendezvous(1)]
    have 1: "frame {ROUTINES_RUNNING} s s1" by (rule links_only_frame)
    from enqueue_message_no_sender[OF rendezvous(2)] have 2: "coroutines s2 = coroutines s1"
      by simp
    from enqueue_message_senders[OF rendezvous(2)] have e2: "no_new_senders s1 s2" by simp
    from transfer_frame[OF rendezvous(3)] have 3: "frame {ROUTINES_RUNNING} s2 (engine_of out)"
      by simp
    from frame_co_frame[OF 1] co_frame_same[OF 2] frame_co_frame[OF 3]
    have "co_frame {ROUTINES_RUNNING} s (engine_of out)"
      by (blast intro: co_frame_trans)
    moreover from 1 e2 3 have "no_new_senders s (engine_of out)"
      by (auto simp: frame_def intro: no_new_senders_trans)
    ultimately show ?thesis by simp
  next
    case (queued s1 s2)
    from coroutine_dequeue_links[OF queued(1)]
    have 1: "frame {ROUTINES_RUNNING} s s1" by (rule links_only_frame)
    from enqueue_message_no_sender[OF queued(2)] have 2: "coroutines s2 = coroutines s1"
      by simp
    from enqueue_message_senders[OF queued(2)] have e2: "no_new_senders s1 s2" by simp
    from frame_co_frame[OF 1] co_frame_same[OF 2] queued(3)
    have "co_frame {ROUTINES_RUNNING} s (engine_of out)"
      by (auto intro: co_frame_trans)
    moreover from 1 e2 queued(3) have "no_new_senders s (engine_of out)"
      by (auto simp: frame_def intro: no_new_senders_trans)
    ultimately show ?thesis by simp
  qed
  then show "co_frame {ROUTINES_RUNNING} s (engine_of out)"
    and "no_new_senders s (engine_of out)" by simp_all
qed

text \<open>
  A \<open>send\<close> without a sender returns in the control flow that made it, or leaves it with
  the continuation saved.
\<close>

lemma send_no_sender_current:
  assumes "send sq m None rq e k s = Some out" and "current_coroutine s = Some p"
  shows "case out of
           Returned v s' \<Rightarrow> current_coroutine s' = Some p
         | Switched s' \<Rightarrow> (\<exists>c'. coroutines s' p = Some c' \<and> c_context c' = Some (In_transfer k))"
  using assms(1)
proof (cases rule: send_no_senderE)
  case (rendezvous srv s1 s2)
  from coroutine_dequeue_links[OF rendezvous(1)] assms(2)
  have "current_coroutine s1 = Some p" by (simp add: links_only_def)
  with enqueue_message_no_sender[OF rendezvous(2)] have c2: "current_coroutine s2 = Some p"
    by simp
  show ?thesis
  proof (cases out)
    case (Returned v s')
    with transfer_returned_current[of "Some ReadyQ" ROUTINES_RUNNING "Some srv" k s2 v s']
      rendezvous(3) c2 show ?thesis by simp
  next
    case (Switched s')
    with transfer_saves_context[of "Some ReadyQ" ROUTINES_RUNNING "Some srv" k s2 s' p]
      rendezvous(3) c2 show ?thesis by simp
  qed
next
  case (queued s1 s2)
  from coroutine_dequeue_links[OF queued(1)] assms(2)
  have "current_coroutine s1 = Some p" by (simp add: links_only_def)
  with enqueue_message_no_sender[OF queued(2)] queued(3) show ?thesis
    by simp
qed

lemma recv_outcome:
  assumes "recv q cell s = Some out" and "current_coroutine s = Some p"
  shows "case out of
           Returned v s' \<Rightarrow> (\<exists>message cell'. v = RMsg message cell' \<and> (cell = None \<longrightarrow> cell' = None))
         | Switched s' \<Rightarrow>
             (\<exists>c'. coroutines s' p = Some c' \<and> c_context c' = Some (In_transfer (Then_dequeue q cell)))"
  using assms(1)
proof (cases rule: recvE)
  case pending
  from dequeue_returned_facts(3)[OF pending(2)] show ?thesis by auto
next
  case (parked s')
  from transfer_saves_context[OF parked(2) assms(2)] parked(3) show ?thesis by simp
next
  case (at_once v s')
  from dequeue_returned_facts(3)[OF at_once(3)] show ?thesis by auto
qed

text \<open>Receiving an entry that records no sender touches no coroutine.\<close>

lemma dequeue_message_no_sender:
  assumes "queues s q = Some mq" and "q_head mq = Some e"
    and "messages s e = Some m" and "m_sender m = None"
  shows "\<exists>cell' s'. dequeue_message q cell s = Some (m_message m, cell', s') \<and>
           coroutines s' = coroutines s \<and> ready_queue s' = ready_queue s \<and>
           current_coroutine s' = current_coroutine s \<and> messages s' = (messages s)(e := None)"
  using assms
  by (cases "m_next m") (simp_all add: dequeue_message_def mq_upd_def Let_def)

text \<open>Suspending a coroutine that is in no coroutine queue.\<close>

lemma suspend_unqueued:
  assumes "coroutines s a = Some c" and "c_queue c = None"
    and "Some a \<noteq> current_coroutine s"
    and "case c_message c of None \<Rightarrow> True | Some e \<Rightarrow> messages s e \<noteq> None"
  shows "routines_suspend (Some a) s =
     Some (Returned RUnit
       (s\<lparr>messages := (case c_message c of
                          None \<Rightarrow> messages s
                        | Some e \<Rightarrow> (messages s)(e \<mapsto> (the (messages s e))\<lparr>m_sender := None\<rparr>)),
          coroutines := (coroutines s)(a \<mapsto> c\<lparr>c_message := None, c_state := ROUTINES_SUSPENDED\<rparr>)\<rparr>))"
proof (cases "c_message c")
  case None
  then have eq: "c\<lparr>c_message := None, c_state := ROUTINES_SUSPENDED\<rparr> =
      c\<lparr>c_state := ROUTINES_SUSPENDED\<rparr>"
    by (cases c) simp
  have "routines_suspend (Some a) s =
     Some (Returned RUnit
       (s\<lparr>coroutines := (coroutines s)(a \<mapsto> c\<lparr>c_state := ROUTINES_SUSPENDED\<rparr>)\<rparr>))"
    using None assms by (simp add: routines_suspend_def suspend_then_def msg_upd_def co_upd_def)
  then show ?thesis
    unfolding eq using None by simp
next
  case (Some e)
  with assms show ?thesis
    by (auto simp: routines_suspend_def suspend_then_def msg_upd_def co_upd_def)
qed

text \<open>Putting a coroutine on the ready queue leaves every coroutine but it and the tail alone.\<close>

lemma enqueue_ready_other:
  assumes "coroutine_enqueue ReadyQ p s = Some s'" and "p \<noteq> a"
    and "tail (ready_queue s) \<noteq> Some a"
  shows "coroutines s' a = coroutines s a" and "tail (ready_queue s') = Some p"
    and "head (ready_queue s') = head (ready_queue s) \<or> head (ready_queue s') = Some p"
    and "current_coroutine s' = current_coroutine s" and "root_task s' = root_task s"
proof -
  have "coroutines s' a = coroutines s a \<and> tail (ready_queue s') = Some p \<and>
    (head (ready_queue s') = head (ready_queue s) \<or> head (ready_queue s') = Some p) \<and>
    current_coroutine s' = current_coroutine s \<and> root_task s' = root_task s"
    using assms unfolding coroutine_enqueue_def
    by (cases "tail (ready_queue s)")
       (auto elim!: bindE simp: mem_defs split: option.splits if_splits)
  then show "coroutines s' a = coroutines s a" and "tail (ready_queue s') = Some p"
    and "head (ready_queue s') = head (ready_queue s) \<or> head (ready_queue s') = Some p"
    and "current_coroutine s' = current_coroutine s" and "root_task s' = root_task s"
    by simp_all
qed

lemma read_returns:
  assumes "routines_read q s = Some out"
  shows "\<not> switched out \<and> current_coroutine (engine_of out) = current_coroutine s"
proof -
  from assms obtain a p where p: "pending_messages (Some a) s = Some p"
    and rest: "(if p then recv a None s else Some (Returned (RMsg None None) s)) = Some out"
    unfolding routines_read_def by (auto elim!: bindE)
  show ?thesis
  proof (cases p)
    case False
    with rest show ?thesis by auto
  next
    case True
    with rest have "recv a None s = Some out" by simp
    then show ?thesis
    proof (cases rule: recvE)
      case pending
      from dequeue_returned_facts(2,3)[OF pending(2)] show ?thesis by auto
    next
      case (parked s')
      with p True show ?thesis by simp
    next
      case (at_once v s')
      with p True show ?thesis by simp
    qed
  qed
qed

lemma enqueue_ready_self:
  assumes "coroutine_enqueue ReadyQ a s = Some s'"
  shows "\<exists>c'. coroutines s' a = Some c' \<and> c_queue c' = Some ReadyQ \<and>
           tail (ready_queue s') = Some a"
proof -
  from assms obtain s1 sb where
    a: "cq_upd ReadyQ (\<lambda>q. q\<lparr>tail := Some a\<rparr>) s1 = Some sb"
    and b: "co_upd a (\<lambda>c. c\<lparr>c_queue := Some ReadyQ\<rparr>) sb = Some s'"
    unfolding coroutine_enqueue_def by (auto elim!: bindE)
  from a have "tail (ready_queue sb) = Some a" by (auto simp: cq_upd_def)
  with b show ?thesis by (auto simp: co_upd_Some)
qed

lemma reclaim_exited_queues:
  assumes "reclaim_exited s = Some s'"
  shows "queues s' = queues s" and "messages s' = messages s"
  using assms
  by (auto simp: reclaim_exited_def co_upd_Some free_stack_def push_stack_def
      split: option.splits elim!: bindE)

section \<open>The list of pending messages\<close>

lemma msg_chain_allocated:
  "msg_chain s p es \<Longrightarrow> e \<in> set es \<Longrightarrow> messages s e \<noteq> None"
  by (induction es arbitrary: p) (auto split: option.splits)

lemma msg_chain_cong:
  assumes "\<forall>e \<in> set es. map_option m_next (messages s' e) = map_option m_next (messages s e)"
  shows "msg_chain s' p es = msg_chain s p es"
  using assms
proof (induction es arbitrary: p)
  case Nil
  then show ?case by simp
next
  case (Cons e es)
  then have e: "map_option m_next (messages s' e) = map_option m_next (messages s e)"
    and rest: "\<And>p. msg_chain s' p es = msg_chain s p es"
    by auto
  show ?case
  proof (cases "messages s e")
    case None
    with e show ?thesis by simp
  next
    case (Some m)
    with e obtain m' :: message_t where "messages s' e = Some m'" "m_next m' = m_next m"
      by auto
    with Some rest show ?thesis by simp
  qed
qed

lemma mq_same_next:
  "mq_same s s' \<Longrightarrow> map_option m_next (messages s' e) = map_option m_next (messages s e)"
proof -
  assume "mq_same s s'"
  then have "map_option msg_core (messages s' e) = map_option msg_core (messages s e)"
    by (simp add: mq_same_def)
  then show ?thesis
    by (cases "messages s e"; cases "messages s' e") (auto simp: msg_core_def)
qed

lemma mq_same_payload:
  "mq_same s s' \<Longrightarrow> map_option m_message (messages s' e) = map_option m_message (messages s e)"
proof -
  assume "mq_same s s'"
  then have "map_option msg_core (messages s' e) = map_option msg_core (messages s e)"
    by (simp add: mq_same_def)
  then show ?thesis
    by (cases "messages s e"; cases "messages s' e") (auto simp: msg_core_def)
qed

lemma mq_same_queue:
  assumes "mq_same s s'" and "queues s q = Some mq"
  shows "\<exists>mq'. queues s' q = Some mq' \<and> q_head mq' = q_head mq \<and> q_tail mq' = q_tail mq"
proof -
  from assms(1) have "map_option mq_core (queues s' q) = map_option mq_core (queues s q)"
    by (simp add: mq_same_def)
  with assms(2) show ?thesis
    by (cases "queues s' q") (auto simp: mq_core_def)
qed

lemma mq_same_inv:
  assumes "mq_same s s'" and "mq_inv s q es"
  shows "mq_inv s' q es"
proof -
  from assms(2) obtain mq where mq: "queues s q = Some mq"
    and ch: "msg_chain s (q_head mq) es" and d: "distinct es"
    and t: "q_tail mq = (if es = [] then HeadOf q else NextOf (last es))"
    by (auto simp: mq_inv_def split: option.splits)
  from mq_same_queue[OF assms(1) mq] obtain mq' where mq': "queues s' q = Some mq'"
    "q_head mq' = q_head mq" "q_tail mq' = q_tail mq" by blast
  have "msg_chain s' (q_head mq) es = msg_chain s (q_head mq) es"
    by (rule msg_chain_cong) (simp add: mq_same_next[OF assms(1)])
  with ch mq' d t show ?thesis by (simp add: mq_inv_def)
qed

lemma mq_same_payloads:
  assumes "mq_same s s'"
  shows "payloads s' es = payloads s es"
proof -
  have "\<And>e. (case messages s' e of None \<Rightarrow> None | Some m \<Rightarrow> m_message m) =
            (case messages s e of None \<Rightarrow> None | Some m \<Rightarrow> m_message m)"
  proof -
    fix e
    from mq_same_payload[OF assms, of e]
    show "(case messages s' e of None \<Rightarrow> None | Some m \<Rightarrow> m_message m) =
            (case messages s e of None \<Rightarrow> None | Some m \<Rightarrow> m_message m)"
      by (cases "messages s e"; cases "messages s' e") auto
  qed
  then show ?thesis by (simp add: payloads_def)
qed

lemma payloads_cong:
  assumes "\<forall>e \<in> set es. map_option m_message (messages s' e) = map_option m_message (messages s e)"
  shows "payloads s' es = payloads s es"
  unfolding payloads_def
proof (rule map_cong[OF refl])
  fix e assume "e \<in> set es"
  with assms have "map_option m_message (messages s' e) = map_option m_message (messages s e)"
    by blast
  then show "(case messages s' e of None \<Rightarrow> None | Some m \<Rightarrow> m_message m) =
            (case messages s e of None \<Rightarrow> None | Some m \<Rightarrow> m_message m)"
    by (cases "messages s e"; cases "messages s' e") auto
qed

text \<open>Linking a new entry behind the last one extends the chain.\<close>

lemma msg_chain_snoc:
  assumes "msg_chain s p es" and "es \<noteq> []" and "a \<notin> set es"
    and "messages s a = Some ma" and "m_next ma = None"
    and "messages s (last es) = Some ml" and "distinct es"
  shows "msg_chain (s\<lparr>messages := (messages s)(last es \<mapsto> ml\<lparr>m_next := Some a\<rparr>)\<rparr>) p (es @ [a])"
  using assms
proof (induction es arbitrary: p)
  case Nil
  then show ?case by simp
next
  case (Cons e es)
  let ?s' = "s\<lparr>messages := (messages s)(last (e # es) \<mapsto> ml\<lparr>m_next := Some a\<rparr>)\<rparr>"
  from Cons.prems(1) obtain m where p: "p = Some e" and m: "messages s e = Some m"
    and ch: "msg_chain s (m_next m) es"
    by (auto split: option.splits)
  show ?case
  proof (cases "es = []")
    case True
    with ch have "m_next m = None" by simp
    from True Cons.prems m have "ml = m" by simp
    with True p Cons.prems show ?thesis by simp
  next
    case False
    with Cons.prems have l: "messages s (last es) = Some ml" "a \<notin> set es" "distinct es"
      by simp_all
    from Cons.IH[OF ch False l(2) Cons.prems(4,5) l(1,3)]
    have ih: "msg_chain (s\<lparr>messages := (messages s)(last es \<mapsto> ml\<lparr>m_next := Some a\<rparr>)\<rparr>)
                (m_next m) (es @ [a])" .
    show ?thesis
    proof (cases "last es = e")
      case True
      with False have "e \<in> set es" by (metis last_in_set)
      with Cons.prems(7) show ?thesis by simp
    next
      case ne: False
      from False have le: "last (e # es) = last es" by simp
      have "messages (s\<lparr>messages := (messages s)(last es \<mapsto> ml\<lparr>m_next := Some a\<rparr>)\<rparr>) e
             = Some m"
        using ne m by simp
      with p ih show ?thesis
        unfolding le append_Cons msg_chain.simps by simp
    qed
  qed
qed

lemma mq_inv_allocated:
  assumes "mq_inv s q es" and "e \<in> set es"
  shows "messages s e \<noteq> None"
  using assms by (auto simp: mq_inv_def split: option.splits dest: msg_chain_allocated)

text \<open>\<open>enqueue_message\<close> appends the new entry to the pending list.\<close>

lemma enqueue_message_inv:
  assumes inv: "mq_inv s q es" and fresh: "messages s a = None"
    and run: "enqueue_message q m sndr rq a k s = Some out"
  shows "mq_inv (engine_of out) q (es @ [a])"
    and "payloads (engine_of out) (es @ [a]) = payloads s es @ [m]"
proof -
  define new where "new = \<lparr>m_message = m, m_sender = sndr, m_reply_queue = rq, m_next = None\<rparr>"
  define s1 where "s1 = s\<lparr>messages := (messages s)(a \<mapsto> new)\<rparr>"
  from inv obtain mq where mq: "queues s q = Some mq"
    and ch: "msg_chain s (q_head mq) es" and d: "distinct es"
    and t: "q_tail mq = (if es = [] then HeadOf q else NextOf (last es))"
    by (auto simp: mq_inv_def split: option.splits)
  have a_notin: "a \<notin> set es"
    using msg_chain_allocated[OF ch, of a] fresh by auto
  have q1: "queues s1 q = Some mq" by (simp add: s1_def mq)
  have ch1: "msg_chain s1 (q_head mq) es"
  proof -
    have "msg_chain s1 (q_head mq) es = msg_chain s (q_head mq) es"
      by (rule msg_chain_cong) (use a_notin in \<open>auto simp: s1_def\<close>)
    with ch show ?thesis by simp
  qed
  have "enqueue_message q m sndr rq a k s = do {
     q0 \<leftarrow> queues s1 q;
     s2 \<leftarrow> (case q_tail q0 of
            HeadOf q' \<Rightarrow> mq_upd q' (\<lambda>mq. mq\<lparr>q_head := Some a\<rparr>) s1
          | NextOf e \<Rightarrow> msg_upd e (\<lambda>m. m\<lparr>m_next := Some a\<rparr>) s1);
     s3 \<leftarrow> mq_upd q (\<lambda>mq. mq\<lparr>q_tail := NextOf a\<rparr>) s2;
     (case sndr of
        Some sn \<Rightarrow> do {
          s4 \<leftarrow> co_upd sn (\<lambda>c. c\<lparr>c_message := Some a\<rparr>) s3;
          transfer None ROUTINES_BLOCKED_SEND None k s4 }
      | None \<Rightarrow> Some (Returned RUnit s3)) }"
    unfolding enqueue_message_def s1_def new_def by (simp add: Let_def)
  with run q1 obtain s2 s3 where
    s2: "(case q_tail mq of
            HeadOf q' \<Rightarrow> mq_upd q' (\<lambda>mq. mq\<lparr>q_head := Some a\<rparr>) s1
          | NextOf e \<Rightarrow> msg_upd e (\<lambda>m. m\<lparr>m_next := Some a\<rparr>) s1) = Some s2"
    and s3: "mq_upd q (\<lambda>mq. mq\<lparr>q_tail := NextOf a\<rparr>) s2 = Some s3"
    and fin: "(case sndr of
        Some sn \<Rightarrow> do {
          s4 \<leftarrow> co_upd sn (\<lambda>c. c\<lparr>c_message := Some a\<rparr>) s3;
          transfer None ROUTINES_BLOCKED_SEND None k s4 }
      | None \<Rightarrow> Some (Returned RUnit s3)) = Some out"
    by (auto elim!: bindE)
  have inv3: "mq_inv s3 q (es @ [a]) \<and> payloads s3 (es @ [a]) = payloads s es @ [m]"
  proof (cases "es = []")
    case True
    with t s2 q1 have "s2 = s1\<lparr>queues := (queues s1)(q \<mapsto> mq\<lparr>q_head := Some a\<rparr>)\<rparr>"
      by (simp add: mq_upd_def)
    with s3 have "s3 = s1\<lparr>queues := (queues s1)(q \<mapsto> mq\<lparr>q_head := Some a, q_tail := NextOf a\<rparr>)\<rparr>"
      by (simp add: mq_upd_def)
    with True show ?thesis
      by (simp add: mq_inv_def s1_def new_def payloads_def)
  next
    case False
    then have l: "last es \<in> set es" by simp
    with msg_chain_allocated[OF ch1] obtain ml where ml: "messages s1 (last es) = Some ml"
      by blast
    from l a_notin have la: "last es \<noteq> a" by auto
    from False t s2 ml
    have e2: "s2 = s1\<lparr>messages := (messages s1)(last es \<mapsto> ml\<lparr>m_next := Some a\<rparr>)\<rparr>"
      by (simp add: msg_upd_def)
    have a1: "messages s1 a = Some new" "m_next new = None"
      by (simp_all add: s1_def new_def)
    from msg_chain_snoc[OF ch1 False a_notin a1 ml d] e2
    have ch2: "msg_chain s2 (q_head mq) (es @ [a])" by simp
    from e2 q1 have q2: "queues s2 q = Some mq" by simp
    with s3 have e3: "s3 = s2\<lparr>queues := (queues s2)(q \<mapsto> mq\<lparr>q_tail := NextOf a\<rparr>)\<rparr>"
      by (simp add: mq_upd_def)
    have ch3: "msg_chain s3 (q_head mq) (es @ [a])"
    proof -
      have "msg_chain s3 (q_head mq) (es @ [a]) = msg_chain s2 (q_head mq) (es @ [a])"
        by (rule msg_chain_cong) (simp add: e3)
      with ch2 show ?thesis by simp
    qed
    have i3: "mq_inv s3 q (es @ [a])"
      using ch3 d a_notin by (simp add: mq_inv_def e3)
    have "payloads s3 es = payloads s es"
    proof (rule payloads_cong, rule ballI)
      fix e assume "e \<in> set es"
      with a_notin have "e \<noteq> a" by auto
      then show "map_option m_message (messages s3 e) = map_option m_message (messages s e)"
        using ml la by (auto simp: e3 e2 s1_def)
    qed
    moreover have "payloads s3 [a] = [m]"
      using la by (simp add: payloads_def e3 e2 s1_def new_def)
    ultimately have "payloads s3 (es @ [a]) = payloads s es @ [m]"
      by (simp add: payloads_def)
    with i3 show ?thesis by simp
  qed
  have same: "mq_same s3 (engine_of out)"
  proof (cases sndr)
    case None
    with fin show ?thesis by auto
  next
    case (Some sn)
    with fin obtain s4 where s4: "co_upd sn (\<lambda>c. c\<lparr>c_message := Some a\<rparr>) s3 = Some s4"
      and tr: "transfer None ROUTINES_BLOCKED_SEND None k s4 = Some out"
      by (auto elim!: bindE)
    from s4 have "mq_same s3 s4" by (auto simp: co_upd_Some mq_same_def)
    moreover from transfer_frame[OF tr] have "mq_same s4 (engine_of out)"
      by (rule frame_mq_same)
    ultimately show ?thesis by (rule mq_same_trans)
  qed
  from mq_same_inv[OF same] inv3 show "mq_inv (engine_of out) q (es @ [a])" by simp
  from mq_same_payloads[OF same] inv3
  show "payloads (engine_of out) (es @ [a]) = payloads s es @ [m]" by simp
qed

text \<open>\<open>dequeue_message\<close> takes the first entry of the pending list, if there is one.\<close>

lemma dequeue_message_inv:
  assumes inv: "mq_inv s q es"
    and run: "dequeue_message q cell s = Some (message, cell', s5)"
  shows "case es of
           [] \<Rightarrow> message = None \<and> mq_inv s5 q []
         | e # es' \<Rightarrow> [message] = payloads s [e] \<and> mq_inv s5 q es' \<and>
                       payloads s5 es' = payloads s es'"
proof -
  from inv obtain mq where mq: "queues s q = Some mq"
    and ch: "msg_chain s (q_head mq) es" and d: "distinct es"
    and t: "q_tail mq = (if es = [] then HeadOf q else NextOf (last es))"
    by (auto simp: mq_inv_def split: option.splits)
  from run show ?thesis
  proof (cases rule: dequeue_messageE)
    case (empty q0)
    with mq ch have "es = []" by (cases es) auto
    with empty mq show ?thesis by (simp add: mq_inv_def)
  next
    case (head q0 h m s1 m1 s2)
    with mq have hd: "q_head mq = Some h" by simp
    with ch obtain es' where es: "es = h # es'" by (cases es) auto
    with ch hd head(3) have ch': "msg_chain s (m_next m) es'" by simp
    from d es have hn: "h \<notin> set es'" and d': "distinct es'" by simp_all
    have same: "mq_same s s1"
      using head(4) by (auto split: option.splits dest: resume_frame frame_mq_same)
    from mq_same_queue[OF same mq] obtain mq1 where mq1: "queues s1 q = Some mq1"
      "q_head mq1 = q_head mq" "q_tail mq1 = q_tail mq" by blast
    from mq_same_next[OF same, of h] head(3,5) have n1: "m_next m1 = m_next m" by simp
    from head(6) mq1 have e2: "s2 = s1\<lparr>queues := (queues s1)(q \<mapsto> mq1\<lparr>q_head := m_next m\<rparr>)\<rparr>"
      by (simp add: mq_upd_def n1)
    define s4 where "s4 = s2\<lparr>messages := (messages s2)(h := None)\<rparr>"
    have q4: "queues s4 q = Some (mq1\<lparr>q_head := m_next m\<rparr>)"
      by (simp add: s4_def e2)
    have m4: "\<And>e. e \<noteq> h \<Longrightarrow> messages s4 e = messages s1 e"
      by (simp add: s4_def e2)
    from head(9) q4 have e5: "s5 = (if m_next m = None
         then s4\<lparr>queues := (queues s4)(q \<mapsto> mq1\<lparr>q_head := m_next m, q_tail := HeadOf q\<rparr>)\<rparr>
         else s4)"
      by (auto simp: n1 s4_def[symmetric] mq_upd_def split: if_splits)
    have m5: "\<And>e. e \<noteq> h \<Longrightarrow> messages s5 e = messages s1 e"
      using m4 by (simp add: e5)
    have ch5: "msg_chain s5 (m_next m) es'"
    proof -
      have "msg_chain s5 (m_next m) es' = msg_chain s (m_next m) es'"
      proof (rule msg_chain_cong, rule ballI)
        fix e assume "e \<in> set es'"
        with hn have "e \<noteq> h" by auto
        with m5 mq_same_next[OF same, of e]
        show "map_option m_next (messages s5 e) = map_option m_next (messages s e)" by simp
      qed
      with ch' show ?thesis by simp
    qed
    have i5: "mq_inv s5 q es'"
    proof (cases "es' = []")
      case True
      with ch' have "m_next m = None" by simp
      with True ch5 show ?thesis by (simp add: mq_inv_def e5)
    next
      case False
      with ch' have "m_next m \<noteq> None" by (cases es') auto
      with False ch5 d' t es mq1 q4 show ?thesis by (simp add: mq_inv_def e5)
    qed
    have p5: "payloads s5 es' = payloads s es'"
    proof (rule payloads_cong, rule ballI)
      fix e assume "e \<in> set es'"
      with hn have "e \<noteq> h" by auto
      with m5 mq_same_payload[OF same, of e]
      show "map_option m_message (messages s5 e) = map_option m_message (messages s e)" by simp
    qed
    from head(3,7) have "[message] = payloads s [h]" by (simp add: payloads_def)
    with es i5 p5 show ?thesis by simp
  qed
qed

section \<open>Resuming blocked senders\<close>

lemma resume_parked_sender:
  assumes p: "parked_sender s e a" and m: "messages s e = Some m"
    and r: "ready_tail_linked s"
  shows "\<exists>s1. routines_resume (Some a) s = Some s1 \<and>
           messages s1 = (messages s)(e \<mapsto> m\<lparr>m_sender := None\<rparr>) \<and>
           queues s1 = queues s \<and> current_coroutine s1 = current_coroutine s \<and>
           resumed s1 a \<and> tail (ready_queue s1) = Some a \<and>
           (\<forall>x. x \<noteq> a \<and> Some x \<noteq> tail (ready_queue s) \<longrightarrow> coroutines s1 x = coroutines s x) \<and>
           (\<forall>x. x \<noteq> a \<longrightarrow>
              map_option (\<lambda>c. c\<lparr>c_next := None\<rparr>) (coroutines s1 x) =
              map_option (\<lambda>c. c\<lparr>c_next := None\<rparr>) (coroutines s x))"
proof -
  from p obtain c where cur: "Some a \<noteq> current_coroutine s" and c: "coroutines s a = Some c"
    and cs: "c_state c = ROUTINES_BLOCKED_SEND" "c_message c = Some e"
      "c_queue c = None" "c_next c = None" "c_prev c = None"
    by (auto simp: parked_sender_def split: option.splits)
  have "case c_message c of None \<Rightarrow> True | Some e \<Rightarrow> messages s e \<noteq> None"
    using cs m by simp
  from suspend_unqueued[OF c cs(3) cur this] cs m
  have su: "routines_suspend (Some a) s =
     Some (Returned RUnit
       (s\<lparr>messages := (messages s)(e \<mapsto> m\<lparr>m_sender := None\<rparr>),
          coroutines := (coroutines s)(a \<mapsto> c\<lparr>c_message := None, c_state := ROUTINES_SUSPENDED\<rparr>)\<rparr>))"
    by simp
  show ?thesis
  proof (cases "tail (ready_queue s)")
    case None
    with c cs cur su show ?thesis
      by (simp add: routines_resume_def coroutine_enqueue_def mem_defs resumed_def)
  next
    case (Some t)
    with r obtain tc where t: "coroutines s t = Some tc" "c_queue tc = Some ReadyQ"
      by (auto simp: ready_tail_linked_def split: option.splits)
    with c cs have ta: "t \<noteq> a" by auto
    with Some t c cs cur su show ?thesis
      by (simp add: routines_resume_def coroutine_enqueue_def mem_defs resumed_def)
  qed
qed

lemma resumed_modulo_next:
  assumes "map_option (\<lambda>c. c\<lparr>c_next := None\<rparr>) (coroutines s' x) =
           map_option (\<lambda>c. c\<lparr>c_next := None\<rparr>) (coroutines s x)"
    and "resumed s x"
  shows "resumed s' x"
proof -
  from assms(2) obtain c :: routines_coroutine where c: "coroutines s x = Some c"
    "c_state c = ROUTINES_RUNNING" "c_queue c = Some ReadyQ" "c_message c = None"
    by (auto simp: resumed_def split: option.splits)
  with assms(1) obtain c' :: routines_coroutine where c': "coroutines s' x = Some c'"
    "c'\<lparr>c_next := None\<rparr> = c\<lparr>c_next := None\<rparr>"
    by (cases "coroutines s' x") auto
  from c'(2) have "c_state (c'\<lparr>c_next := None\<rparr>) = c_state (c\<lparr>c_next := None\<rparr>)"
    "c_queue (c'\<lparr>c_next := None\<rparr>) = c_queue (c\<lparr>c_next := None\<rparr>)"
    "c_message (c'\<lparr>c_next := None\<rparr>) = c_message (c\<lparr>c_next := None\<rparr>)"
    by simp_all
  with c c'(1) show ?thesis by (simp add: resumed_def)
qed

text \<open>One turn of the first loop of \<open>routines_queue_destroy\<close>.\<close>

lemma discard_step:
  assumes q: "queues s q = Some mq" and h: "q_head mq = Some e" and m: "messages s e = Some m"
    and ep: "entry_parked s e" and r: "ready_tail_linked s"
  shows "\<exists>s' mq'. dequeue_message q None s = Some (m_message m, None, s') \<and>
           queues s' q = Some mq' \<and> q_head mq' = m_next m \<and>
           q_recv_queue mq' = q_recv_queue mq \<and>
           messages s' = (messages s)(e := None) \<and>
           current_coroutine s' = current_coroutine s \<and>
           ready_tail_linked s' \<and>
           (\<forall>a \<in> set (sender_of s e). resumed s' a) \<and>
           (\<forall>x. resumed s x \<longrightarrow> resumed s' x) \<and>
           (\<forall>x c. coroutines s x = Some c \<and> c_queue c = None \<and> m_sender m \<noteq> Some x \<longrightarrow>
                  coroutines s' x = Some c)"
proof -
  have "\<exists>s1. (case m_sender m of Some sndr \<Rightarrow> routines_resume (Some sndr) s | None \<Rightarrow> Some s)
             = Some s1 \<and>
          messages s1 = (messages s)(e \<mapsto> m\<lparr>m_sender := None\<rparr>) \<and>
          queues s1 = queues s \<and> current_coroutine s1 = current_coroutine s \<and>
          ready_tail_linked s1 \<and>
          (\<forall>a \<in> set (sender_of s e). resumed s1 a) \<and>
          (\<forall>x. resumed s x \<longrightarrow> resumed s1 x) \<and>
          (\<forall>x c. coroutines s x = Some c \<and> c_queue c = None \<and> m_sender m \<noteq> Some x \<longrightarrow>
                  coroutines s1 x = Some c)"
  proof (cases "m_sender m")
    case None
    then have "m\<lparr>m_sender := None\<rparr> = m" by simp
    with m have "(messages s)(e \<mapsto> m\<lparr>m_sender := None\<rparr>) = messages s"
      by (simp add: fun_upd_idem)
    with None m r show ?thesis by (simp add: sender_of_def)
  next
    case (Some a)
    with ep m have p: "parked_sender s e a" by (simp add: entry_parked_def)
    from resume_parked_sender[OF p m r] obtain s1 where
      s1: "routines_resume (Some a) s = Some s1"
        "messages s1 = (messages s)(e \<mapsto> m\<lparr>m_sender := None\<rparr>)"
        "queues s1 = queues s" "current_coroutine s1 = current_coroutine s"
        "resumed s1 a" "tail (ready_queue s1) = Some a"
      and far: "\<forall>x. x \<noteq> a \<and> Some x \<noteq> tail (ready_queue s) \<longrightarrow> coroutines s1 x = coroutines s x"
      and near: "\<forall>x. x \<noteq> a \<longrightarrow>
              map_option (\<lambda>c. c\<lparr>c_next := None\<rparr>) (coroutines s1 x) =
              map_option (\<lambda>c. c\<lparr>c_next := None\<rparr>) (coroutines s x)"
      by blast
    have rt: "ready_tail_linked s1"
      using s1(5,6) by (auto simp: ready_tail_linked_def resumed_def split: option.splits)
    have keep: "\<forall>x. resumed s x \<longrightarrow> resumed s1 x"
    proof (intro allI impI)
      fix x assume x: "resumed s x"
      with p have "x \<noteq> a"
        by (auto simp: resumed_def parked_sender_def split: option.splits)
      with near have "map_option (\<lambda>c. c\<lparr>c_next := None\<rparr>) (coroutines s1 x) =
              map_option (\<lambda>c. c\<lparr>c_next := None\<rparr>) (coroutines s x)" by simp
      from resumed_modulo_next[OF this x] show "resumed s1 x" .
    qed
    have others: "\<forall>x c. coroutines s x = Some c \<and> c_queue c = None \<and> m_sender m \<noteq> Some x \<longrightarrow>
                  coroutines s1 x = Some c"
    proof (intro allI impI)
      fix x and c :: routines_coroutine
      assume x: "coroutines s x = Some c \<and> c_queue c = None \<and> m_sender m \<noteq> Some x"
      with Some have xa: "x \<noteq> a" by auto
      from x r have "Some x \<noteq> tail (ready_queue s)"
        by (auto simp: ready_tail_linked_def split: option.splits)
      with xa far x show "coroutines s1 x = Some c" by simp
    qed
    from Some m s1 rt keep others show ?thesis
      by (simp add: sender_of_def)
  qed
  then obtain s1 where
    s1: "(case m_sender m of Some sndr \<Rightarrow> routines_resume (Some sndr) s | None \<Rightarrow> Some s) = Some s1"
      "messages s1 = (messages s)(e \<mapsto> m\<lparr>m_sender := None\<rparr>)"
      "queues s1 = queues s" "current_coroutine s1 = current_coroutine s"
      "ready_tail_linked s1"
    and res: "\<forall>a \<in> set (sender_of s e). resumed s1 a"
      "\<forall>x. resumed s x \<longrightarrow> resumed s1 x"
      "\<forall>x c. coroutines s x = Some c \<and> c_queue c = None \<and> m_sender m \<noteq> Some x \<longrightarrow>
                  coroutines s1 x = Some c"
    by blast
  define s5 where "s5 = s1\<lparr>queues := (queues s1)(q \<mapsto>
        (if m_next m = None then mq\<lparr>q_head := m_next m, q_tail := HeadOf q\<rparr>
         else mq\<lparr>q_head := m_next m\<rparr>)),
      messages := (messages s1)(e := None)\<rparr>"
  have d: "dequeue_message q None s = Some (m_message m, None, s5)"
    using q h m s1(1,2,3)
    by (cases "m_next m") (simp_all add: dequeue_message_def mq_upd_def s5_def)
  have co5: "coroutines s5 = coroutines s1" "ready_queue s5 = ready_queue s1"
    by (simp_all add: s5_def)
  then have eq: "\<And>x. resumed s5 x = resumed s1 x" "ready_tail_linked s5 = ready_tail_linked s1"
    by (simp_all add: resumed_def ready_tail_linked_def cong: option.case_cong)
  have "messages s5 = (messages s)(e := None)"
    by (simp add: s5_def s1(2))
  moreover have "\<exists>mq'. queues s5 q = Some mq' \<and> q_head mq' = m_next m \<and>
           q_recv_queue mq' = q_recv_queue mq"
    by (simp add: s5_def)
  moreover have "current_coroutine s5 = current_coroutine s"
    by (simp add: s5_def s1(4))
  ultimately show ?thesis
    using d s1(5) res eq co5 by auto
qed

lemma msg_chain_unique: "msg_chain s p es \<Longrightarrow> msg_chain s p es' \<Longrightarrow> es = es'"
proof (induction es arbitrary: p es')
  case Nil
  then show ?case by (cases es') auto
next
  case (Cons e es)
  then show ?case by (cases es') (auto split: option.splits)
qed

lemma msg_chain_drop: "msg_chain s p (xs @ e # ys) \<Longrightarrow> msg_chain s (Some e) (e # ys)"
proof (induction xs arbitrary: p)
  case Nil
  then show ?case by simp
next
  case (Cons x xs)
  from Cons.prems obtain m :: message_t where "msg_chain s (m_next m) (xs @ e # ys)"
    by (auto split: option.splits)
  then show ?case by (rule Cons.IH)
qed

text \<open>A chain that ends at NULL visits no entry twice.\<close>

lemma msg_chain_distinct: "msg_chain s p es \<Longrightarrow> distinct es"
proof (induction es arbitrary: p)
  case Nil
  show ?case by simp
next
  case (Cons e es)
  then obtain m where m: "messages s e = Some m" and ch: "msg_chain s (m_next m) es"
    by (auto split: option.splits)
  have "e \<notin> set es"
  proof
    assume "e \<in> set es"
    then obtain xs ys where es: "es = xs @ e # ys" by (auto dest: split_list)
    with ch have "msg_chain s (Some e) (e # ys)" by (auto dest: msg_chain_drop)
    with m have "msg_chain s (m_next m) ys" by simp
    with ch have "es = ys" by (rule msg_chain_unique)
    with es show False by simp
  qed
  with Cons.IH[OF ch] show ?case by simp
qed

lemma discard_messages_unfold:
  assumes "queues s q = Some mq" and "q_head mq = Some e"
    and "dequeue_message q None s = Some (message, cell, s1)"
  shows "discard_messages q s = discard_messages q s1"
  using assms
  by (subst discard_messages.simps) (simp add: pending_messages_def)

lemma discard_messages_done:
  assumes "queues s q = Some mq" and "q_head mq = None"
  shows "discard_messages q s = Some s"
  using assms
  by (subst discard_messages.simps) (simp add: pending_messages_def)

text \<open>The first loop of \<open>routines_queue_destroy\<close> frees every entry and resumes every sender.\<close>

lemma discard_messages_all:
  assumes "queues s q = Some mq" and "msg_chain s (q_head mq) es" and "distinct es"
    and "senders_parked s es" and "ready_tail_linked s"
  shows "\<exists>s' mq'. discard_messages q s = Some s' \<and>
           queues s' q = Some mq' \<and> q_head mq' = None \<and>
           q_recv_queue mq' = q_recv_queue mq \<and>
           (\<forall>e \<in> set es. messages s' e = None) \<and>
           (\<forall>x. messages s x = None \<longrightarrow> messages s' x = None) \<and>
           (\<forall>a \<in> set (senders_of s es). resumed s' a) \<and>
           (\<forall>x. resumed s x \<longrightarrow> resumed s' x) \<and>
           current_coroutine s' = current_coroutine s"
  using assms
proof (induction es arbitrary: s mq)
  case Nil
  then have "q_head mq = None" by simp
  with Nil.prems(1) discard_messages_done[of s q mq] show ?case
    by (simp add: senders_of_def)
next
  case (Cons e es)
  from Cons.prems(2) obtain m where h: "q_head mq = Some e" and m: "messages s e = Some m"
    and ch: "msg_chain s (m_next m) es"
    by (auto split: option.splits)
  from Cons.prems(3) have en: "e \<notin> set es" and d: "distinct es" by simp_all
  from Cons.prems(4) have ep: "entry_parked s e" and sp: "senders_parked s es"
    by (simp_all add: senders_parked_def)
  from discard_step[OF Cons.prems(1) h m ep Cons.prems(5)] obtain s1 mq1 where
    de: "dequeue_message q None s = Some (m_message m, None, s1)"
    and q1: "queues s1 q = Some mq1" "q_head mq1 = m_next m"
      "q_recv_queue mq1 = q_recv_queue mq"
    and m1: "messages s1 = (messages s)(e := None)"
    and c1: "current_coroutine s1 = current_coroutine s"
    and r1: "ready_tail_linked s1"
    and res1: "\<forall>a \<in> set (sender_of s e). resumed s1 a"
    and keep1: "\<forall>x. resumed s x \<longrightarrow> resumed s1 x"
    and others: "\<forall>x c. coroutines s x = Some c \<and> c_queue c = None \<and> m_sender m \<noteq> Some x \<longrightarrow>
                  coroutines s1 x = Some c"
    by blast
  have ch1: "msg_chain s1 (q_head mq1) es"
  proof -
    have "msg_chain s1 (m_next m) es = msg_chain s (m_next m) es"
      by (rule msg_chain_cong) (use en m1 in auto)
    with ch q1 show ?thesis by simp
  qed
  have sp1: "senders_parked s1 es"
    unfolding senders_parked_def list_all_iff
  proof (rule ballI)
    fix e' assume e': "e' \<in> set es"
    with en have ne: "e' \<noteq> e" by auto
    from e' sp have p: "entry_parked s e'"
      by (simp add: senders_parked_def list_all_iff)
    then obtain m' where m': "messages s e' = Some m'"
      by (auto simp: entry_parked_def split: option.splits)
    with ne m1 have m1': "messages s1 e' = Some m'" by simp
    show "entry_parked s1 e'"
    proof (cases "m_sender m'")
      case None
      with m1' show ?thesis by (simp add: entry_parked_def)
    next
      case (Some a')
      with p m' have pa: "parked_sender s e' a'" by (simp add: entry_parked_def)
      then obtain c' where c': "coroutines s a' = Some c'" "c_message c' = Some e'"
        "c_queue c' = None"
        by (auto simp: parked_sender_def split: option.splits)
      have "m_sender m \<noteq> Some a'"
      proof
        assume "m_sender m = Some a'"
        with ep m have "parked_sender s e a'" by (simp add: entry_parked_def)
        with c' ne show False by (auto simp: parked_sender_def)
      qed
      with others c' have "coroutines s1 a' = Some c'" by blast
      with pa c' c1 have "parked_sender s1 e' a'"
        by (auto simp: parked_sender_def)
      with m1' Some show ?thesis by (simp add: entry_parked_def)
    qed
  qed
  from Cons.IH[OF q1(1) ch1 d sp1 r1] obtain s' mq' where
    di: "discard_messages q s1 = Some s'"
    and q': "queues s' q = Some mq'" "q_head mq' = None" "q_recv_queue mq' = q_recv_queue mq1"
    and freed: "\<forall>e \<in> set es. messages s' e = None"
    and stays: "\<forall>x. messages s1 x = None \<longrightarrow> messages s' x = None"
    and res: "\<forall>a \<in> set (senders_of s1 es). resumed s' a"
    and keep: "\<forall>x. resumed s1 x \<longrightarrow> resumed s' x"
    and c': "current_coroutine s' = current_coroutine s1"
    by blast
  from discard_messages_unfold[OF Cons.prems(1) h de] di
  have 1: "discard_messages q s = Some s'" by simp
  have 2: "\<forall>e0 \<in> set (e # es). messages s' e0 = None"
    using freed stays m1 by auto
  have 3: "\<forall>x. messages s x = None \<longrightarrow> messages s' x = None"
    using stays m1 by auto
  have so: "senders_of s1 es = senders_of s es"
    unfolding senders_of_def
  proof (rule arg_cong[where f = concat], rule map_cong[OF refl])
    fix e' assume "e' \<in> set es"
    with en have "e' \<noteq> e" by auto
    with m1 show "sender_of s1 e' = sender_of s e'" by (simp add: sender_of_def)
  qed
  have 4: "\<forall>a \<in> set (senders_of s (e # es)). resumed s' a"
  proof
    fix a assume "a \<in> set (senders_of s (e # es))"
    then have "a \<in> set (sender_of s e) \<or> a \<in> set (senders_of s es)"
      by (simp add: senders_of_def)
    then show "resumed s' a"
    proof
      assume "a \<in> set (sender_of s e)"
      with res1 have "resumed s1 a" by blast
      with keep show ?thesis by blast
    next
      assume "a \<in> set (senders_of s es)"
      with so have "a \<in> set (senders_of s1 es)" by simp
      with res show ?thesis by blast
    qed
  qed
  have 5: "\<forall>x. resumed s x \<longrightarrow> resumed s' x"
    using keep1 keep by blast
  from 1 q' q1(3) 2 3 4 5 c' c1 show ?case by simp
qed

section \<open>Where a transfer leaves control and its caller\<close>

lemma cq_upd_tail:
  assumes "cq_upd q (\<lambda>cq. cq\<lparr>tail := Some p\<rparr>) s = Some s'"
  shows "map_option tail (cq_get q s') = Some (Some p)"
  using assms by (cases q) (auto simp: mem_defs split: option.splits)

lemma co_upd_cq_get:
  assumes "co_upd a f s = Some s'" and "\<And>c. c_join_queue (f c) = c_join_queue c"
  shows "cq_get q s' = cq_get q s"
  using assms by (cases q) (auto simp: mem_defs split: option.splits)

lemma co_upd_ready:
  "co_upd a f s = Some s' \<Longrightarrow> ready_queue s' = ready_queue s \<and> queues s' = queues s \<and>
     messages s' = messages s \<and> current_coroutine s' = current_coroutine s"
  by (auto simp: co_upd_Some)

lemma cq_upd_ready:
  "cq_upd q f s = Some s' \<Longrightarrow> q \<noteq> ReadyQ \<Longrightarrow> ready_queue s' = ready_queue s"
  by (cases q) (auto simp: mem_defs split: option.splits)

text \<open>\<open>coroutine_enqueue\<close> makes the coroutine the tail of the queue and sets its queue pointer.\<close>

lemma enqueue_facts:
  assumes en: "coroutine_enqueue q p s = Some s'" and c: "coroutines s p = Some c"
  shows "\<exists>c'. coroutines s' p = Some c' \<and> c_queue c' = Some q \<and> c_state c' = c_state c"
    and "map_option tail (cq_get q s') = Some (Some p)"
    and "q \<noteq> ReadyQ \<Longrightarrow> ready_queue s' = ready_queue s"
    and "q = ReadyQ \<Longrightarrow> head (ready_queue s') =
           (if tail (ready_queue s) = None then Some p else head (ready_queue s))"
proof -
  from en obtain cq s1 s2 where g: "cq_get q s = Some cq"
    and a: "(case tail cq of
            Some t \<Rightarrow> do {
              s' \<leftarrow> co_upd p (\<lambda>c. c\<lparr>c_prev := Some t\<rparr>) s;
              co_upd t (\<lambda>c. c\<lparr>c_next := Some p\<rparr>) s' }
          | None \<Rightarrow> cq_upd q (\<lambda>q. q\<lparr>head := Some p\<rparr>) s) = Some s1"
    and b: "cq_upd q (\<lambda>q. q\<lparr>tail := Some p\<rparr>) s1 = Some s2"
    and d: "co_upd p (\<lambda>c. c\<lparr>c_queue := Some q\<rparr>) s2 = Some s'"
    unfolding coroutine_enqueue_def by (auto elim!: bindE)
  from d have 1: "\<exists>c'. coroutines s' p = Some c' \<and> c_queue c' = Some q"
    by (auto simp: co_upd_Some)
  from links_only_coroutine[OF coroutine_enqueue_links[OF en] c] 1
  show "\<exists>c'. coroutines s' p = Some c' \<and> c_queue c' = Some q \<and> c_state c' = c_state c"
    by auto
  from co_upd_cq_get[OF d, of q] cq_upd_tail[OF b]
  show "map_option tail (cq_get q s') = Some (Some p)" by simp
  have r1: "q \<noteq> ReadyQ \<Longrightarrow> ready_queue s1 = ready_queue s"
    using a by (cases "tail cq") (auto elim!: bindE simp: co_upd_Some dest: cq_upd_ready)
  show "q \<noteq> ReadyQ \<Longrightarrow> ready_queue s' = ready_queue s"
    using r1 cq_upd_ready[OF b] co_upd_ready[OF d] by simp
  show "head (ready_queue s') =
           (if tail (ready_queue s) = None then Some p else head (ready_queue s))" if "q = ReadyQ"
  proof -
    from that g have cq: "cq = ready_queue s" by (simp add: cq_get_def)
    have "head (ready_queue s1) =
           (if tail (ready_queue s) = None then Some p else head (ready_queue s))"
      using a cq that by (cases "tail cq") (auto elim!: bindE simp: co_upd_Some cq_upd_def)
    moreover from b that have "head (ready_queue s2) = head (ready_queue s1)"
      by (auto simp: cq_upd_def)
    ultimately show ?thesis using co_upd_ready[OF d] by simp
  qed
qed

text \<open>What \<open>coroutine_dequeue\<close> on the ready queue changes.\<close>

lemma dequeue_ready_facts:
  assumes "coroutine_dequeue ReadyQ s = Some (target, s')"
  shows "target = head (ready_queue s)"
    and "queues s' = queues s"
    and "\<forall>x. map_option c_join_queue (coroutines s' x) = map_option c_join_queue (coroutines s x)"
    and "\<forall>x. Some x \<noteq> target \<longrightarrow> coroutines s' x = coroutines s x"
    and "head (ready_queue s') \<noteq> None \<longrightarrow> tail (ready_queue s') = tail (ready_queue s)"
  using assms unfolding coroutine_dequeue_def
  by (auto simp: mem_defs elim!: bindE split: option.splits if_splits)

text \<open>
  A \<open>transfer\<close> made by the current coroutine \<open>p\<close>: where control is afterwards, and
  what has become of \<open>p\<close> when the target is another control flow.
\<close>

lemma transfer_byE:
  assumes t: "transfer queue st coroutine k s = Some out" and cur: "current_coroutine s = Some p"
  obtains s0 s1 target s2 where
    "co_upd p (\<lambda>c. c\<lparr>c_state := st\<rparr>) s = Some s0"
    and "(case queue of Some q \<Rightarrow> coroutine_enqueue q p s0 | None \<Rightarrow> Some s0) = Some s1"
    and "(case coroutine of
            None \<Rightarrow> coroutine_dequeue ReadyQ s1
          | Some c \<Rightarrow> Some (Some c, s1)) = Some (target, s2)"
    and "current_coroutine (engine_of out) = target"
    and "switched out \<longleftrightarrow> target \<noteq> Some p"
    and "target \<noteq> Some p \<longrightarrow> (\<exists>cp. coroutines s2 p = Some cp \<and>
           coroutines (engine_of out) p = Some (cp\<lparr>c_context := Some (In_transfer k)\<rparr>))"
    and "target \<noteq> Some p \<longrightarrow> queues (engine_of out) = queues s2 \<and>
           ready_queue (engine_of out) = ready_queue s2 \<and>
           (\<forall>x. map_option c_join_queue (coroutines (engine_of out) x) =
                map_option c_join_queue (coroutines s2 x))"
proof -
  from t obtain s1 target s2 s4 s5 where
    a: "(case current_coroutine s of
            Some me \<Rightarrow> do {
              s' \<leftarrow> co_upd me (\<lambda>c. c\<lparr>c_state := st\<rparr>) s;
              (case queue of
                 Some q \<Rightarrow> coroutine_enqueue q me s'
               | None \<Rightarrow> Some s') }
          | None \<Rightarrow> Some s) = Some s1"
    and b: "(case coroutine of
            None \<Rightarrow> coroutine_dequeue ReadyQ s1
          | Some c \<Rightarrow> Some (Some c, s1)) = Some (target, s2)"
    and c: "(case current_coroutine s of
            Some me \<Rightarrow> co_upd me (\<lambda>c. c\<lparr>c_context := Some (In_transfer k)\<rparr>)
                         (s2\<lparr>current_coroutine := target\<rparr>)
          | None \<Rightarrow> Some (s2\<lparr>current_coroutine := target, root_task := Some (In_transfer k)\<rparr>))
         = Some s4"
    and d: "(case target of
            Some n \<Rightarrow> co_upd n (\<lambda>c. c\<lparr>c_state := ROUTINES_RUNNING\<rparr>) s4
          | None \<Rightarrow> Some s4) = Some s5"
    and e: "(if target = current_coroutine s
     then do { s6 \<leftarrow> reclaim_exited s5; Some (Returned RUnit s6) }
     else Some (Switched s5)) = Some out"
    by (rule transferE)
  from a cur obtain s0 where 1: "co_upd p (\<lambda>c. c\<lparr>c_state := st\<rparr>) s = Some s0"
    and 2: "(case queue of Some q \<Rightarrow> coroutine_enqueue q p s0 | None \<Rightarrow> Some s0) = Some s1"
    by (auto elim!: bindE)
  from c cur have c': "co_upd p (\<lambda>c. c\<lparr>c_context := Some (In_transfer k)\<rparr>)
                         (s2\<lparr>current_coroutine := target\<rparr>) = Some s4" by simp
  from transfer_current(1)[OF t] cur
  have sw: "switched out \<longleftrightarrow> current_coroutine (engine_of out) \<noteq> Some p" by simp
  have c4: "current_coroutine s4 = target" using c' by (auto simp: co_upd_Some)
  have c5: "current_coroutine s5 = target" using d c4
    by (cases target) (auto simp: co_upd_Some)
  have co: "current_coroutine (engine_of out) = target"
    using e c5 by (auto split: if_splits elim!: bindE dest: reclaim_exited_current)
  have 6: "\<exists>cp. coroutines s2 p = Some cp \<and>
           coroutines (engine_of out) p = Some (cp\<lparr>c_context := Some (In_transfer k)\<rparr>)"
    if "target \<noteq> Some p"
  proof -
    from that cur e have o: "out = Switched s5" by (auto split: if_splits)
    from c' obtain cp where cp: "coroutines s2 p = Some cp"
      "s4 = s2\<lparr>current_coroutine := target,
             coroutines := (coroutines s2)(p \<mapsto> cp\<lparr>c_context := Some (In_transfer k)\<rparr>)\<rparr>"
      by (auto simp: co_upd_Some)
    from d that cp have "coroutines s5 p = Some (cp\<lparr>c_context := Some (In_transfer k)\<rparr>)"
      by (cases target) (auto simp: co_upd_Some)
    with cp o show ?thesis by simp
  qed
  have 7: "queues (engine_of out) = queues s2 \<and>
           ready_queue (engine_of out) = ready_queue s2 \<and>
           (\<forall>x. map_option c_join_queue (coroutines (engine_of out) x) =
                map_option c_join_queue (coroutines s2 x))"
    if "target \<noteq> Some p"
  proof -
    from that cur e have o: "out = Switched s5" by (auto split: if_splits)
    from c' have 4: "queues s4 = queues s2" "ready_queue s4 = ready_queue s2"
      "\<forall>x. map_option c_join_queue (coroutines s4 x) = map_option c_join_queue (coroutines s2 x)"
      by (auto simp: co_upd_Some)
    from d have 5: "queues s5 = queues s4" "ready_queue s5 = ready_queue s4"
      "\<forall>x. map_option c_join_queue (coroutines s5 x) = map_option c_join_queue (coroutines s4 x)"
      by (cases target; auto simp: co_upd_Some)+
    from 4 5 o show ?thesis by simp
  qed
  from 1 2 b co sw 6 7 show ?thesis
    by (intro that[of s0 s1 target s2]) auto
qed

lemma cq_get_cong:
  assumes "queues s' = queues s"
    and "\<forall>x. map_option c_join_queue (coroutines s' x) = map_option c_join_queue (coroutines s x)"
    and "q = ReadyQ \<longrightarrow> ready_queue s' = ready_queue s"
  shows "cq_get q s' = cq_get q s"
proof (cases q)
  case ReadyQ
  with assms(3) show ?thesis by (simp add: cq_get_def)
next
  case (RecvQ x)
  with assms(1) show ?thesis by (simp add: cq_get_def)
next
  case (JoinQ x)
  from assms(2) have "map_option c_join_queue (coroutines s' x) =
      map_option c_join_queue (coroutines s x)" by (rule spec)
  with JoinQ show ?thesis by (simp add: cq_get_def)
qed

text \<open>
  Where the caller of a \<open>transfer\<close> is left when control goes to another control flow.
\<close>

lemma transfer_leaves:
  assumes 0: "co_upd p (\<lambda>c. c\<lparr>c_state := st\<rparr>) s = Some s0"
    and 1: "(case queue of Some q \<Rightarrow> coroutine_enqueue q p s0 | None \<Rightarrow> Some s0) = Some s1"
    and c: "coroutines s p = Some c" and nq: "queue = None \<longrightarrow> c_queue c = None"
  shows "\<exists>c1. coroutines s1 p = Some c1 \<and> c_state c1 = st \<and> c_queue c1 = queue"
    and "case queue of None \<Rightarrow> True | Some q \<Rightarrow> map_option tail (cq_get q s1) = Some (Some p)"
    and "queue \<noteq> Some ReadyQ \<Longrightarrow> ready_queue s1 = ready_queue s"
    and "queue = Some ReadyQ \<Longrightarrow> head (ready_queue s1) =
           (if tail (ready_queue s) = None then Some p else head (ready_queue s))"
proof -
  from 0 c have c0: "coroutines s0 p = Some (c\<lparr>c_state := st\<rparr>)"
    and r0: "ready_queue s0 = ready_queue s"
    by (auto simp: co_upd_Some)
  show "\<exists>c1. coroutines s1 p = Some c1 \<and> c_state c1 = st \<and> c_queue c1 = queue"
  proof (cases queue)
    case None
    with 1 c0 nq show ?thesis by simp
  next
    case (Some q)
    with 1 have "coroutine_enqueue q p s0 = Some s1" by simp
    from enqueue_facts(1)[OF this c0] Some show ?thesis by auto
  qed
  show "case queue of None \<Rightarrow> True | Some q \<Rightarrow> map_option tail (cq_get q s1) = Some (Some p)"
  proof (cases queue)
    case None
    then show ?thesis by simp
  next
    case (Some q)
    with 1 have "coroutine_enqueue q p s0 = Some s1" by simp
    from enqueue_facts(2)[OF this c0] Some show ?thesis by simp
  qed
  show "ready_queue s1 = ready_queue s" if "queue \<noteq> Some ReadyQ"
  proof (cases queue)
    case None
    with 1 r0 show ?thesis by simp
  next
    case (Some q)
    with 1 that have "coroutine_enqueue q p s0 = Some s1" "q \<noteq> ReadyQ" by simp_all
    from enqueue_facts(3)[OF this(1) c0 this(2)] r0 show ?thesis by simp
  qed
  show "head (ready_queue s1) =
           (if tail (ready_queue s) = None then Some p else head (ready_queue s))"
    if "queue = Some ReadyQ"
  proof -
    from 1 that have "coroutine_enqueue ReadyQ p s0 = Some s1" by simp
    from enqueue_facts(4)[OF this c0] r0 show ?thesis by simp
  qed
qed

lemma transfer_control:
  assumes t: "transfer queue st coroutine k s = Some out" and cur: "current_coroutine s = Some p"
    and nq0: "queue = None \<longrightarrow> map_option c_queue (coroutines s p) = Some None"
  shows "coroutine = Some r \<Longrightarrow> control_to p (Some r) st queue out"
    and "coroutine = None \<Longrightarrow> queue \<noteq> Some ReadyQ \<Longrightarrow>
           control_to p (head (ready_queue s)) st queue out"
    and "coroutine = None \<Longrightarrow> queue = Some ReadyQ \<Longrightarrow>
           current_coroutine (engine_of out) =
             (if tail (ready_queue s) = None then Some p else head (ready_queue s)) \<and>
           (switched out \<longleftrightarrow> current_coroutine (engine_of out) \<noteq> Some p) \<and>
           (switched out \<longrightarrow>
              (\<exists>c'. coroutines (engine_of out) p = Some c' \<and> c_state c' = st \<and>
                 c_queue c' = Some ReadyQ) \<and>
              (head (ready_queue (engine_of out)) \<noteq> None \<longrightarrow>
                 tail (ready_queue (engine_of out)) = Some p))"
proof -
  from t cur obtain s0 s1 target s2 where
    0: "co_upd p (\<lambda>c. c\<lparr>c_state := st\<rparr>) s = Some s0"
    and 1: "(case queue of Some q \<Rightarrow> coroutine_enqueue q p s0 | None \<Rightarrow> Some s0) = Some s1"
    and 2: "(case coroutine of
            None \<Rightarrow> coroutine_dequeue ReadyQ s1
          | Some c \<Rightarrow> Some (Some c, s1)) = Some (target, s2)"
    and 3: "current_coroutine (engine_of out) = target"
    and 4: "switched out \<longleftrightarrow> target \<noteq> Some p"
    and 5: "target \<noteq> Some p \<longrightarrow> (\<exists>cp. coroutines s2 p = Some cp \<and>
           coroutines (engine_of out) p = Some (cp\<lparr>c_context := Some (In_transfer k)\<rparr>))"
    and 6: "target \<noteq> Some p \<longrightarrow> queues (engine_of out) = queues s2 \<and>
           ready_queue (engine_of out) = ready_queue s2 \<and>
           (\<forall>x. map_option c_join_queue (coroutines (engine_of out) x) =
                map_option c_join_queue (coroutines s2 x))"
    by (rule transfer_byE)
  from 0 obtain c where c: "coroutines s p = Some c"
    by (auto simp: co_upd_Some)
  with nq0 have nq: "queue = None \<longrightarrow> c_queue c = None" by simp
  from transfer_leaves(1,2)[OF 0 1 c nq] obtain c1 where
    c1: "coroutines s1 p = Some c1" "c_state c1 = st" "c_queue c1 = queue"
    and tl: "case queue of None \<Rightarrow> True | Some q \<Rightarrow> map_option tail (cq_get q s1) = Some (Some p)"
    by auto
  note rq = transfer_leaves(3,4)[OF 0 1 c nq]
  have left: "case coroutines (engine_of out) p of
           None \<Rightarrow> False
         | Some c \<Rightarrow>
             c_state c = st \<and> c_queue c = queue \<and>
             (case queue of
                None \<Rightarrow> True
              | Some q \<Rightarrow> map_option tail (cq_get q (engine_of out)) = Some (Some p))"
    if np: "target \<noteq> Some p" and same: "coroutines s2 p = coroutines s1 p"
      and g: "\<And>q. queue = Some q \<Longrightarrow> cq_get q s2 = cq_get q s1"
  proof -
    from 5 np same c1 have o: "coroutines (engine_of out) p =
        Some (c1\<lparr>c_context := Some (In_transfer k)\<rparr>)" by auto
    have "cq_get q (engine_of out) = cq_get q s2" for q
      using 6 np by (intro cq_get_cong) auto
    with o c1 tl g show ?thesis by (cases queue) auto
  qed
  show "control_to p (Some r) st queue out" if "coroutine = Some r"
  proof -
    from 2 that have tg: "target = Some r" and s2: "s2 = s1" by simp_all
    from left s2 have "target \<noteq> Some p \<longrightarrow> (case coroutines (engine_of out) p of
           None \<Rightarrow> False
         | Some c \<Rightarrow>
             c_state c = st \<and> c_queue c = queue \<and>
             (case queue of
                None \<Rightarrow> True
              | Some q \<Rightarrow> map_option tail (cq_get q (engine_of out)) = Some (Some p)))"
      by simp
    with 3 4 tg show ?thesis by (simp add: control_to_def)
  qed
  show "control_to p (head (ready_queue s)) st queue out"
    if "coroutine = None" and nr: "queue \<noteq> Some ReadyQ"
  proof -
    from 2 that have d: "coroutine_dequeue ReadyQ s1 = Some (target, s2)" by simp
    note df = dequeue_ready_facts[OF d]
    from df(1) rq(1)[OF nr] have tg: "target = head (ready_queue s)" by simp
    have "case coroutines (engine_of out) p of
           None \<Rightarrow> False
         | Some c \<Rightarrow>
             c_state c = st \<and> c_queue c = queue \<and>
             (case queue of
                None \<Rightarrow> True
              | Some q \<Rightarrow> map_option tail (cq_get q (engine_of out)) = Some (Some p))"
      if np: "target \<noteq> Some p"
    proof (rule left[OF np])
      from df(4) np show "coroutines s2 p = coroutines s1 p" by auto
      fix q assume "queue = Some q"
      with nr have "q \<noteq> ReadyQ" by simp
      with df(2,3) show "cq_get q s2 = cq_get q s1"
        by (intro cq_get_cong) auto
    qed
    with 3 4 tg show ?thesis by (simp add: control_to_def)
  qed
  show "current_coroutine (engine_of out) =
             (if tail (ready_queue s) = None then Some p else head (ready_queue s)) \<and>
           (switched out \<longleftrightarrow> current_coroutine (engine_of out) \<noteq> Some p) \<and>
           (switched out \<longrightarrow>
              (\<exists>c'. coroutines (engine_of out) p = Some c' \<and> c_state c' = st \<and>
                 c_queue c' = Some ReadyQ) \<and>
              (head (ready_queue (engine_of out)) \<noteq> None \<longrightarrow>
                 tail (ready_queue (engine_of out)) = Some p))"
    if "coroutine = None" and r: "queue = Some ReadyQ"
  proof -
    from 2 that have d: "coroutine_dequeue ReadyQ s1 = Some (target, s2)" by simp
    note df = dequeue_ready_facts[OF d]
    from df(1) rq(2)[OF r]
    have tg: "target = (if tail (ready_queue s) = None then Some p else head (ready_queue s))"
      by simp
    have "(\<exists>c'. coroutines (engine_of out) p = Some c' \<and> c_state c' = st \<and>
                 c_queue c' = Some ReadyQ) \<and>
              (head (ready_queue (engine_of out)) \<noteq> None \<longrightarrow>
                 tail (ready_queue (engine_of out)) = Some p)"
      if np: "target \<noteq> Some p"
    proof -
      from df(4) np have "coroutines s2 p = coroutines s1 p" by auto
      with 5 np c1 r have a: "\<exists>c'. coroutines (engine_of out) p = Some c' \<and> c_state c' = st \<and>
                 c_queue c' = Some ReadyQ" by auto
      from tl r have "tail (ready_queue s1) = Some p" by (simp add: cq_get_def)
      with df(5) have "head (ready_queue s2) \<noteq> None \<longrightarrow> tail (ready_queue s2) = Some p"
        by simp
      with 6 np a show ?thesis by simp
    qed
    with 3 4 tg show ?thesis by simp
  qed
qed

section \<open>Where each call leaves control\<close>

lemma suspend_thenE:
  assumes "suspend_then k (Some a) s = Some out"
  obtains c s1 c1 s2 s3 where "coroutines s a = Some c"
    and "(case c_message c of
            Some e \<Rightarrow> do {
              s' \<leftarrow> msg_upd e (\<lambda>m. m\<lparr>m_sender := None\<rparr>) s;
              co_upd a (\<lambda>c. c\<lparr>c_message := None\<rparr>) s' }
          | None \<Rightarrow> Some s) = Some s1"
    and "coroutines s1 a = Some c1"
    and "(if c_queue c1 \<noteq> None then coroutine_remove a s1 else Some s1) = Some s2"
    and "co_upd a (\<lambda>c. c\<lparr>c_state := ROUTINES_SUSPENDED\<rparr>) s2 = Some s3"
    and "(if Some a = current_coroutine s3
     then transfer None ROUTINES_SUSPENDED None k s3
     else Some (Returned RUnit s3)) = Some out"
    and "current_coroutine s1 = current_coroutine s" and "ready_queue s1 = ready_queue s"
    and "c_queue c1 = c_queue c"
proof -
  from assms obtain c s1 c1 s2 s3 where
    c: "coroutines s a = Some c"
    and s1: "(case c_message c of
            Some e \<Rightarrow> do {
              s' \<leftarrow> msg_upd e (\<lambda>m. m\<lparr>m_sender := None\<rparr>) s;
              co_upd a (\<lambda>c. c\<lparr>c_message := None\<rparr>) s' }
          | None \<Rightarrow> Some s) = Some s1"
    and c1: "coroutines s1 a = Some c1"
    and s2: "(if c_queue c1 \<noteq> None then coroutine_remove a s1 else Some s1) = Some s2"
    and s3: "co_upd a (\<lambda>c. c\<lparr>c_state := ROUTINES_SUSPENDED\<rparr>) s2 = Some s3"
    and out: "(if Some a = current_coroutine s3
     then transfer None ROUTINES_SUSPENDED None k s3
     else Some (Returned RUnit s3)) = Some out"
    unfolding suspend_then_def by (auto elim!: bindE)
  have "current_coroutine s1 = current_coroutine s \<and> ready_queue s1 = ready_queue s \<and>
        c_queue c1 = c_queue c"
    using s1 c c1 by (auto split: option.splits elim!: bindE simp: co_upd_Some msg_upd_Some)
  with c s1 c1 s2 s3 out show ?thesis
    by (intro that[of c s1 c1 s2 s3]) auto
qed

lemma suspend_then_other:
  assumes "Some a \<noteq> current_coroutine s" and "suspend_then k (Some a) s = Some out"
  shows "\<exists>s'. out = Returned RUnit s' \<and> current_coroutine s' = current_coroutine s"
proof -
  from assms(2) obtain c s1 c1 s2 s3 where "coroutines s a = Some c"
    and "(case c_message c of
            Some e \<Rightarrow> do {
              s' \<leftarrow> msg_upd e (\<lambda>m. m\<lparr>m_sender := None\<rparr>) s;
              co_upd a (\<lambda>c. c\<lparr>c_message := None\<rparr>) s' }
          | None \<Rightarrow> Some s) = Some s1"
    and "coroutines s1 a = Some c1"
    and s2: "(if c_queue c1 \<noteq> None then coroutine_remove a s1 else Some s1) = Some s2"
    and s3: "co_upd a (\<lambda>c. c\<lparr>c_state := ROUTINES_SUSPENDED\<rparr>) s2 = Some s3"
    and out: "(if Some a = current_coroutine s3
     then transfer None ROUTINES_SUSPENDED None k s3
     else Some (Returned RUnit s3)) = Some out"
    and 1: "current_coroutine s1 = current_coroutine s"
    and "ready_queue s1 = ready_queue s" and "c_queue c1 = c_queue c"
    by (rule suspend_thenE)
  have l: "links_only s1 s2"
    using s2 by (auto split: if_splits dest: coroutine_remove_links)
  have "current_coroutine s3 = current_coroutine s"
    using s3 1 links_only_current[OF l] by (auto simp: co_upd_Some)
  with out assms(1) show ?thesis by auto
qed

text \<open>A coroutine that is in no queue suspends itself: control goes to the ready queue.\<close>

lemma suspend_then_self:
  assumes run: "suspend_then k (Some p) s = Some out" and cur: "current_coroutine s = Some p"
    and c: "coroutines s p = Some c" and nq: "c_queue c = None"
  shows "control_to p (head (ready_queue s)) ROUTINES_SUSPENDED None out"
proof -
  from run obtain c' s1 c1 s2 s3 where c': "coroutines s p = Some c'"
    and "(case c_message c' of
            Some e \<Rightarrow> do {
              s' \<leftarrow> msg_upd e (\<lambda>m. m\<lparr>m_sender := None\<rparr>) s;
              co_upd p (\<lambda>c. c\<lparr>c_message := None\<rparr>) s' }
          | None \<Rightarrow> Some s) = Some s1"
    and c1: "coroutines s1 p = Some c1"
    and s2: "(if c_queue c1 \<noteq> None then coroutine_remove p s1 else Some s1) = Some s2"
    and s3: "co_upd p (\<lambda>c. c\<lparr>c_state := ROUTINES_SUSPENDED\<rparr>) s2 = Some s3"
    and out: "(if Some p = current_coroutine s3
     then transfer None ROUTINES_SUSPENDED None k s3
     else Some (Returned RUnit s3)) = Some out"
    and 1: "current_coroutine s1 = current_coroutine s" "ready_queue s1 = ready_queue s"
      "c_queue c1 = c_queue c'"
    by (rule suspend_thenE)
  from c c' nq 1(3) have "c_queue c1 = None" by simp
  with s2 have "s2 = s1" by simp
  with s3 c1 \<open>c_queue c1 = None\<close> 1 cur have 3: "current_coroutine s3 = Some p"
    "ready_queue s3 = ready_queue s" "map_option c_queue (coroutines s3 p) = Some None"
    by (auto simp: co_upd_Some)
  with out have t: "transfer None ROUTINES_SUSPENDED None k s3 = Some out" by simp
  from transfer_control(2)[OF t 3(1)] 3(2,3) show ?thesis by simp
qed

lemma resume_all_current:
  assumes "resume_all q s = Some s'"
  shows "current_coroutine s' = current_coroutine s"
proof (rule resume_all.raw_induct
    [where P = "\<lambda>q s s'. current_coroutine s' = current_coroutine s", OF _ assms])
  fix f :: "cq_ptr \<Rightarrow> engine \<Rightarrow> engine option" and queue and s y :: engine
  assume IH: "\<And>q t z. f q t = Some z \<Longrightarrow> current_coroutine z = current_coroutine t"
    and eq: "Option.bind (coroutine_dequeue queue s) (\<lambda>r.
       case fst r of
         None \<Rightarrow> Some (snd r)
       | Some joined \<Rightarrow>
           Option.bind (routines_resume (Some joined) (snd r)) (f queue)) = Some y"
  from eq obtain r where d: "coroutine_dequeue queue s = Some r"
    and rest: "(case fst r of
         None \<Rightarrow> Some (snd r)
       | Some joined \<Rightarrow>
           Option.bind (routines_resume (Some joined) (snd r)) (f queue)) = Some y"
    by (auto elim!: bindE)
  from d have "coroutine_dequeue queue s = Some (fst r, snd r)" by simp
  from coroutine_dequeue_links[OF this] have c1: "current_coroutine (snd r) = current_coroutine s"
    by (rule links_only_current)
  show "current_coroutine y = current_coroutine s"
  proof (cases "fst r")
    case None
    with rest c1 show ?thesis by simp
  next
    case (Some joined)
    with rest obtain s2 where a: "routines_resume (Some joined) (snd r) = Some s2"
      and b: "f queue s2 = Some y"
      by (auto elim!: bindE)
    from IH[OF b] resume_current[OF a] c1 show ?thesis by simp
  qed
qed

lemma discard_messages_current:
  assumes "discard_messages q s = Some s'"
  shows "current_coroutine s' = current_coroutine s"
proof (rule discard_messages.raw_induct
    [where P = "\<lambda>q s s'. current_coroutine s' = current_coroutine s", OF _ assms])
  fix f :: "addr \<Rightarrow> engine \<Rightarrow> engine option" and queue and s y :: engine
  assume IH: "\<And>q t z. f q t = Some z \<Longrightarrow> current_coroutine z = current_coroutine t"
    and eq: "Option.bind (pending_messages (Some queue) s) (\<lambda>pending.
       if pending
       then Option.bind (dequeue_message queue None s)
              (\<lambda>r. f queue (snd (snd r)))
       else Some s) = Some y"
  from eq obtain pending where
    rest: "(if pending
       then Option.bind (dequeue_message queue None s)
              (\<lambda>r. f queue (snd (snd r)))
       else Some s) = Some y"
    by (auto elim!: bindE)
  show "current_coroutine y = current_coroutine s"
  proof (cases pending)
    case False
    with rest show ?thesis by simp
  next
    case True
    with rest obtain r where a: "dequeue_message queue None s = Some r"
      and b: "f queue (snd (snd r)) = Some y"
      by (auto elim!: bindE)
    from a have "dequeue_message queue None s = Some (fst r, fst (snd r), snd (snd r))" by simp
    from dequeue_message_co_frame(2)[OF this] IH[OF b] show ?thesis by simp
  qed
qed

lemma queue_destroy_current:
  assumes "routines_queue_destroy q s = Some s'"
  shows "current_coroutine s' = current_coroutine s"
  using assms unfolding routines_queue_destroy_def
  by (auto elim!: bindE dest!: discard_messages_current resume_all_current)

lemma destroy_rest_returns:
  assumes "destroy_rest a s = Some out"
  shows "\<exists>s'. out = Returned RUnit s' \<and> current_coroutine s' = current_coroutine s"
  using assms unfolding destroy_rest_def
  by (auto elim!: bindE dest!: resume_all_current simp: Let_def free_stack_def push_stack_def)

lemma control_to_self: "control_to p (Some p) st queue out \<longleftrightarrow> stays p out"
  by (auto simp: control_to_def stays_def)

lemma destroy_control:
  assumes run: "routines_destroy h s = Some out" and cur: "current_coroutine s = Some p"
    and c: "coroutines s p = Some c" and nq: "c_queue c = None"
  shows "if h = Some p
         then control_to p (head (ready_queue s)) ROUTINES_SUSPENDED None out
         else stays p out"
proof -
  from run obtain a o1 where h: "h = Some a"
    and su: "suspend_then (Then_destroy a) (Some a) s = Some o1"
    and rest: "(case o1 of
        Switched s' \<Rightarrow> Some (Switched s')
      | Returned v s1 \<Rightarrow> destroy_rest a s1) = Some out"
    unfolding routines_destroy_def by (auto elim!: bindE)
  show ?thesis
  proof (cases "a = p")
    case False
    with cur have "Some a \<noteq> current_coroutine s" by simp
    from suspend_then_other[OF this su] obtain s1 where
      o1: "o1 = Returned RUnit s1" and c1: "current_coroutine s1 = current_coroutine s" by blast
    with rest have "destroy_rest a s1 = Some out" by simp
    from destroy_rest_returns[OF this] c1 cur h False show ?thesis
      by (auto simp: stays_def)
  next
    case True
    with su have "suspend_then (Then_destroy p) (Some p) s = Some o1" by simp
    from suspend_then_self[OF this cur c nq]
    have ct: "control_to p (head (ready_queue s)) ROUTINES_SUSPENDED None o1" .
    show ?thesis
    proof (cases o1)
      case (Switched s')
      with rest have "out = o1" by simp
      with ct h True show ?thesis by simp
    next
      case (Returned v s1)
      with ct have hd: "head (ready_queue s) = Some p" and c1: "current_coroutine s1 = Some p"
        by (auto simp: control_to_def)
      from Returned rest True have "destroy_rest p s1 = Some out" by simp
      from destroy_rest_returns[OF this] c1 have "stays p out" by (auto simp: stays_def)
      with hd h True show ?thesis by (simp add: control_to_self)
    qed
  qed
qed

lemma suspend_control:
  assumes run: "routines_suspend h s = Some out" and cur: "current_coroutine s = Some p"
    and c: "coroutines s p = Some c" and nq: "c_queue c = None"
  shows "if h = Some p
         then control_to p (head (ready_queue s)) ROUTINES_SUSPENDED None out
         else stays p out"
proof -
  from run obtain a where h: "h = Some a"
    unfolding routines_suspend_def suspend_then_def by (auto elim!: bindE)
  with run have su: "suspend_then Ret_unit (Some a) s = Some out"
    by (simp add: routines_suspend_def)
  show ?thesis
  proof (cases "a = p")
    case False
    with cur have "Some a \<noteq> current_coroutine s" by simp
    from suspend_then_other[OF this su] cur h False show ?thesis
      by (auto simp: stays_def)
  next
    case True
    with su suspend_then_self[OF _ cur c nq] h show ?thesis by simp
  qed
qed

lemma yield_control:
  assumes "routines_yield s = Some out" and "current_coroutine s = Some p"
  shows "current_coroutine (engine_of out) =
             (if tail (ready_queue s) = None then Some p else head (ready_queue s)) \<and>
           (switched out \<longleftrightarrow> current_coroutine (engine_of out) \<noteq> Some p) \<and>
           (switched out \<longrightarrow>
              (\<exists>c'. coroutines (engine_of out) p = Some c' \<and> c_state c' = ROUTINES_RUNNING \<and>
                 c_queue c' = Some ReadyQ) \<and>
              (head (ready_queue (engine_of out)) \<noteq> None \<longrightarrow>
                 tail (ready_queue (engine_of out)) = Some p))"
  using assms unfolding routines_yield_def
  by (intro transfer_control(3)) auto

lemma join_control:
  assumes "routines_join h s = Some out" and cur: "current_coroutine s = Some p"
  shows "\<exists>a. h = Some a \<and>
           control_to p (head (ready_queue s)) ROUTINES_BLOCKED_JOIN (Some (JoinQ a)) out"
proof -
  from assms(1) obtain a where h: "h = Some a"
    and t: "transfer (Some (JoinQ a)) ROUTINES_BLOCKED_JOIN None Ret_unit s = Some out"
    unfolding routines_join_def by (auto elim!: bindE)
  from transfer_control(2)[OF t cur] h show ?thesis by simp
qed

lemma dequeue_recv_facts:
  assumes "coroutine_dequeue (RecvQ q) s = Some (r, s')"
  shows "ready_queue s' = ready_queue s" and "current_coroutine s' = current_coroutine s"
    and "messages s' = messages s"
    and "\<forall>x. Some x \<noteq> r \<longrightarrow> coroutines s' x = coroutines s x"
    and "\<forall>mq. queues s q = Some mq \<longrightarrow> r = head (q_recv_queue mq)"
    and "\<forall>x. map_option mq_core (queues s' x) = map_option mq_core (queues s x)"
    and "r = None \<longrightarrow> coroutines s' = coroutines s"
  using assms unfolding coroutine_dequeue_def
  by (auto simp: mem_defs mq_core_def elim!: bindE split: option.splits if_splits)

lemma sendE:
  assumes "send sq m sender rq e k s = Some out"
  obtains (rendezvous) srv s1 s2 where "coroutine_dequeue (RecvQ sq) s = Some (Some srv, s1)"
      and "enqueue_message sq m None rq e k s1 = Some (Returned RUnit s2)"
      and "transfer (Some ReadyQ) ROUTINES_RUNNING (Some srv) k s2 = Some out"
    | (queued) s1 where "coroutine_dequeue (RecvQ sq) s = Some (None, s1)"
      and "enqueue_message sq m sender rq e k s1 = Some out"
proof -
  from assms obtain server s1 where d: "coroutine_dequeue (RecvQ sq) s = Some (server, s1)"
    and rest: "(case server of
        Some srv \<Rightarrow> do {
          out \<leftarrow> enqueue_message sq m None rq e k s1;
          transfer (Some ReadyQ) ROUTINES_RUNNING (Some srv) k (engine_of out) }
      | None \<Rightarrow> enqueue_message sq m sender rq e k s1) = Some out"
    unfolding send_def by (auto elim!: bindE)
  show thesis
  proof (cases server)
    case None
    with rest d show thesis by (intro queued[of s1]) auto
  next
    case (Some srv)
    with rest obtain o1 where e: "enqueue_message sq m None rq e k s1 = Some o1"
      and t: "transfer (Some ReadyQ) ROUTINES_RUNNING (Some srv) k (engine_of o1) = Some out"
      by (auto elim!: bindE)
    from enqueue_message_no_sender[OF e] obtain s2 where "o1 = Returned RUnit s2" by blast
    with d Some e t show thesis by (intro rendezvous[of srv s1 s2]) auto
  qed
qed

text \<open>\<open>enqueue_message\<close> with the caller as sender parks the caller in BlockedSend.\<close>

lemma enqueue_message_blocks:
  assumes run: "enqueue_message q m (Some p) rq e k s = Some out"
    and cur: "current_coroutine s = Some p"
    and nq: "map_option c_queue (coroutines s p) = Some None"
  shows "control_to p (head (ready_queue s)) ROUTINES_BLOCKED_SEND None out"
proof -
  from run obtain s3 s4 where
    s4: "co_upd p (\<lambda>c. c\<lparr>c_message := Some e\<rparr>) s3 = Some s4"
    and t: "transfer None ROUTINES_BLOCKED_SEND None k s4 = Some out"
    and 3: "coroutines s3 = coroutines s" "current_coroutine s3 = current_coroutine s"
      "ready_queue s3 = ready_queue s"
    unfolding enqueue_message_def Let_def
    by (auto elim!: bindE split: msg_cursor.splits simp: mq_upd_Some msg_upd_Some)
  from s4 3 cur nq have 4: "current_coroutine s4 = Some p" "ready_queue s4 = ready_queue s"
    "map_option c_queue (coroutines s4 p) = Some None"
    by (auto simp: co_upd_Some)
  from transfer_control(2)[OF t 4(1)] 4(2,3) show ?thesis by simp
qed

text \<open>Where control is after a \<open>send\<close> made by the current coroutine.\<close>

lemma send_control:
  assumes run: "send sq m sender rq e k s = Some out" and cur: "current_coroutine s = Some p"
    and mq: "queues s sq = Some mq"
  shows "case head (q_recv_queue mq) of
           Some r \<Rightarrow> control_to p (Some r) ROUTINES_RUNNING (Some ReadyQ) out
         | None \<Rightarrow>
             (case sender of
                None \<Rightarrow> stays p out
              | Some x \<Rightarrow> x = p \<and> map_option c_queue (coroutines s p) = Some None \<longrightarrow>
                  control_to p (head (ready_queue s)) ROUTINES_BLOCKED_SEND None out)"
  using run
proof (cases rule: sendE)
  case (rendezvous srv s1 s2)
  note d = dequeue_recv_facts[OF rendezvous(1)]
  from d(5) mq have h: "head (q_recv_queue mq) = Some srv" by simp
  from enqueue_message_no_sender[OF rendezvous(2)] d(2) cur
  have "current_coroutine s2 = Some p" by simp
  from transfer_control(1)[OF rendezvous(3) this] h show ?thesis by simp
next
  case (queued s1)
  note d = dequeue_recv_facts[OF queued(1)]
  from d(5) mq have h: "head (q_recv_queue mq) = None" by simp
  show ?thesis
  proof (cases sender)
    case None
    with queued(2) enqueue_message_no_sender[of sq m rq e k s1 out] d(2) cur h
    show ?thesis by (auto simp: stays_def)
  next
    case (Some x)
    have "control_to p (head (ready_queue s)) ROUTINES_BLOCKED_SEND None out"
      if "x = p" "map_option c_queue (coroutines s p) = Some None"
    proof -
      from that Some queued(2) have e: "enqueue_message sq m (Some p) rq e k s1 = Some out"
        by simp
      from d(7) that have "map_option c_queue (coroutines s1 p) = Some None" by simp
      from enqueue_message_blocks[OF e _ this] d(1,2) cur show ?thesis by simp
    qed
    with Some h show ?thesis by simp
  qed
qed

text \<open>Where control is after a \<open>recv\<close> made by the current coroutine.\<close>

lemma recv_control:
  assumes run: "recv q cell s = Some out" and cur: "current_coroutine s = Some p"
    and mq: "queues s q = Some mq"
  shows "if q_head mq \<noteq> None then stays p out
         else control_to p (head (ready_queue s)) ROUTINES_BLOCKED_RECV (Some (RecvQ q)) out"
  using run
proof (cases rule: recvE)
  case pending
  from pending(1) mq have "q_head mq \<noteq> None" by (simp add: pending_messages_def)
  with dequeue_returned_facts(2,3)[OF pending(2)] cur show ?thesis
    by (auto simp: stays_def)
next
  case (parked s')
  from parked(1) mq have "q_head mq = None" by (simp add: pending_messages_def)
  with transfer_control(2)[OF parked(2) cur] parked(3) show ?thesis by simp
next
  case (at_once v s')
  from at_once(1) mq have h: "q_head mq = None" by (simp add: pending_messages_def)
  from transfer_control(2)[OF at_once(2) cur]
  have "control_to p (head (ready_queue s)) ROUTINES_BLOCKED_RECV (Some (RecvQ q)) (Returned v s')"
    by simp
  then have hd: "head (ready_queue s) = Some p" and c': "current_coroutine s' = Some p"
    by (auto simp: control_to_def)
  from dequeue_returned_facts(2,3)[OF at_once(3)] c' have "stays p out"
    by (auto simp: stays_def)
  with hd h show ?thesis by (simp add: control_to_self)
qed

lemma call_control:
  assumes run: "routines_call send_queue m reply_queue e s = Some out"
    and cur: "current_coroutine s = Some p"
  shows "\<exists>sq rq mq. send_queue = Some sq \<and> reply_queue = Some rq \<and> queues s sq = Some mq \<and>
           (case head (q_recv_queue mq) of
              Some r \<Rightarrow> r \<noteq> p \<longrightarrow> control_to p (Some r) ROUTINES_RUNNING (Some ReadyQ) out
            | None \<Rightarrow> stays p out \<or>
                control_to p (head (ready_queue s)) ROUTINES_BLOCKED_RECV (Some (RecvQ rq)) out)"
proof -
  from run obtain sq rq o1 where q: "send_queue = Some sq" "reply_queue = Some rq"
    and snd: "send sq m None (Some rq) e (Then_recv rq) s = Some o1"
    and rest: "(case o1 of
        Switched s' \<Rightarrow> Some (Switched s')
      | Returned v s' \<Rightarrow> recv rq None s') = Some out"
    unfolding routines_call_def by (auto elim!: bindE)
  from snd obtain mq where mq: "queues s sq = Some mq"
    unfolding send_def coroutine_dequeue_def cq_get_def by (auto elim!: bindE)
  note sc = send_control[OF snd cur mq]
  have "case head (q_recv_queue mq) of
              Some r \<Rightarrow> r \<noteq> p \<longrightarrow> control_to p (Some r) ROUTINES_RUNNING (Some ReadyQ) out
            | None \<Rightarrow> stays p out \<or>
                control_to p (head (ready_queue s)) ROUTINES_BLOCKED_RECV (Some (RecvQ rq)) out"
  proof (cases "head (q_recv_queue mq)")
    case (Some r)
    have "control_to p (Some r) ROUTINES_RUNNING (Some ReadyQ) out" if "r \<noteq> p"
    proof -
      from sc Some have ct: "control_to p (Some r) ROUTINES_RUNNING (Some ReadyQ) o1" by simp
      with that have "switched o1" by (simp add: control_to_def)
      then obtain s' where "o1 = Switched s'" by (cases o1) auto
      with rest have "out = o1" by simp
      with ct show ?thesis by simp
    qed
    with Some show ?thesis by simp
  next
    case None
    with sc have "stays p o1" by simp
    then obtain v s1 where o1: "o1 = Returned v s1" and c1: "current_coroutine s1 = Some p"
      by (cases o1) (auto simp: stays_def)
    with rest have r: "recv rq None s1 = Some out" by simp
    then obtain mr where mr: "queues s1 rq = Some mr"
      unfolding recv_def pending_messages_def by (auto elim!: bindE)
    from snd o1 have rq1: "ready_queue s1 = ready_queue s"
    proof (cases rule: send_no_senderE)
      case (rendezvous srv sa sb)
      from dequeue_recv_facts(5)[OF rendezvous(1)] mq None show ?thesis by simp
    next
      case (queued sa sb)
      from dequeue_recv_facts(1)[OF queued(1)] enqueue_message_no_sender[OF queued(2)] queued(3) o1
      show ?thesis by simp
    qed
    from recv_control[OF r c1 mr] rq1 None show ?thesis
      by (auto split: if_splits)
  qed
  with q mq show ?thesis by simp
qed

lemma spawn_control:
  assumes run: "routines_spawn task arg a region s = Some out"
    and cur: "current_coroutine s = Some p"
  shows "switched out \<and> current_coroutine (engine_of out) = Some a \<and>
         (\<exists>c'. coroutines (engine_of out) p = Some c' \<and> c_queue c' = Some ReadyQ) \<and>
         tail (ready_queue (engine_of out)) = Some p"
proof -
  from run cur obtain s2 s3 where en: "coroutine_enqueue ReadyQ p s2 = Some s3"
    and out: "out = Switched (s3\<lparr>current_coroutine := Some a\<rparr>)"
    unfolding routines_spawn_def routine_entry_def
    by (auto elim!: bindE simp: Let_def alloc_stack_def pop_stack_def co_upd_Some
        dest!: links_only_current[OF coroutine_enqueue_links]
        split: prod.splits list.splits option.splits)
  from enqueue_ready_self[OF en] out show ?thesis by auto
qed

lemma exit_control:
  assumes run: "routine_exit p s = Some out"
  shows "switched out \<and> exited_coroutine (engine_of out) = Some p \<and>
         map_option c_state (coroutines (engine_of out) p) = Some ROUTINES_COMPLETED"
proof -
  from run obtain s1 s2 target s3 where
    s2: "co_upd p (\<lambda>c. c\<lparr>c_state := ROUTINES_COMPLETED\<rparr>) (s1\<lparr>exited_coroutine := Some p\<rparr>) = Some s2"
    and d: "coroutine_dequeue ReadyQ s2 = Some (target, s3)"
    and out: "out = Switched (s3\<lparr>current_coroutine := target\<rparr>)"
    unfolding routine_exit_def by (auto elim!: bindE)
  from s2 obtain c2 where c2: "coroutines s2 p = Some c2" "c_state c2 = ROUTINES_COMPLETED"
    and x2: "exited_coroutine s2 = Some p"
    by (auto simp: co_upd_Some)
  note l = coroutine_dequeue_links[OF d]
  from links_only_coroutine[OF l c2(1)] c2(2) l x2 out show ?thesis
    by (auto simp: links_only_def)
qed

lemma send_queue_allocated:
  assumes "send sq m sender rq e k s = Some out"
  shows "\<exists>mq. queues s sq = Some mq"
  using assms unfolding send_def coroutine_dequeue_def cq_get_def by (auto elim!: bindE)

lemma recv_queue_allocated:
  assumes "recv q cell s = Some out"
  shows "\<exists>mq. queues s q = Some mq"
  using assms unfolding recv_def pending_messages_def by (auto elim!: bindE)

section \<open>The pending messages of one queue while another is used\<close>

lemma mq_inv_cong:
  assumes "queues s' q = queues s q" and "\<forall>e \<in> set es. messages s' e = messages s e"
    and "mq_inv s q es"
  shows "mq_inv s' q es"
proof -
  have "msg_chain s' p es = msg_chain s p es" for p
    by (rule msg_chain_cong) (use assms(2) in auto)
  with assms(1,3) show ?thesis by (auto simp: mq_inv_def split: option.splits)
qed

text \<open>
  What \<open>enqueue_message\<close> without a sender writes: the new entry, the \<open>next\<close> of the
  last pending entry, and the queue itself.
\<close>

lemma enqueue_message_writes:
  assumes inv: "mq_inv s q es" and fresh: "messages s a = None"
    and run: "enqueue_message q m None rq a k s = Some out"
  shows "messages (engine_of out) a =
           Some \<lparr>m_message = m, m_sender = None, m_reply_queue = rq, m_next = None\<rparr>"
    and "\<forall>x. x \<noteq> q \<longrightarrow> queues (engine_of out) x = queues s x"
    and "\<forall>x. x \<notin> set es \<and> x \<noteq> a \<longrightarrow> messages (engine_of out) x = messages s x"
proof -
  define new where "new = \<lparr>m_message = m, m_sender = None, m_reply_queue = rq, m_next = None\<rparr>"
  define s1 where "s1 = s\<lparr>messages := (messages s)(a \<mapsto> new)\<rparr>"
  from inv obtain mq where mq: "queues s q = Some mq"
    and ch: "msg_chain s (q_head mq) es"
    and t: "q_tail mq = (if es = [] then HeadOf q else NextOf (last es))"
    by (auto simp: mq_inv_def split: option.splits)
  have a_notin: "a \<notin> set es"
    using msg_chain_allocated[OF ch, of a] fresh by auto
  have q1: "queues s1 q = Some mq" by (simp add: s1_def mq)
  have "enqueue_message q m None rq a k s = do {
     q0 \<leftarrow> queues s1 q;
     s2 \<leftarrow> (case q_tail q0 of
            HeadOf q' \<Rightarrow> mq_upd q' (\<lambda>mq. mq\<lparr>q_head := Some a\<rparr>) s1
          | NextOf e \<Rightarrow> msg_upd e (\<lambda>m. m\<lparr>m_next := Some a\<rparr>) s1);
     s3 \<leftarrow> mq_upd q (\<lambda>mq. mq\<lparr>q_tail := NextOf a\<rparr>) s2;
     Some (Returned RUnit s3) }"
    unfolding enqueue_message_def s1_def new_def by (simp add: Let_def)
  with run q1 obtain s2 s3 where
    s2: "(case q_tail mq of
            HeadOf q' \<Rightarrow> mq_upd q' (\<lambda>mq. mq\<lparr>q_head := Some a\<rparr>) s1
          | NextOf e \<Rightarrow> msg_upd e (\<lambda>m. m\<lparr>m_next := Some a\<rparr>) s1) = Some s2"
    and s3: "mq_upd q (\<lambda>mq. mq\<lparr>q_tail := NextOf a\<rparr>) s2 = Some s3"
    and out: "out = Returned RUnit s3"
    by (auto elim!: bindE)
  have "messages s3 a = Some new \<and> (\<forall>x. x \<noteq> q \<longrightarrow> queues s3 x = queues s x) \<and>
        (\<forall>x. x \<notin> set es \<and> x \<noteq> a \<longrightarrow> messages s3 x = messages s x)"
  proof (cases "es = []")
    case True
    with t s2 q1 have "s2 = s1\<lparr>queues := (queues s1)(q \<mapsto> mq\<lparr>q_head := Some a\<rparr>)\<rparr>"
      by (simp add: mq_upd_def)
    with s3 have "s3 = s1\<lparr>queues := (queues s1)(q \<mapsto> mq\<lparr>q_head := Some a, q_tail := NextOf a\<rparr>)\<rparr>"
      by (simp add: mq_upd_def)
    then show ?thesis by (simp add: s1_def)
  next
    case False
    then have l: "last es \<in> set es" by simp
    with a_notin have la: "last es \<noteq> a" by auto
    from l msg_chain_allocated[OF ch] obtain ml0 where "messages s (last es) = Some ml0"
      by blast
    with la have ml: "messages s1 (last es) = Some ml0" by (simp add: s1_def)
    from False t s2 ml
    have e2: "s2 = s1\<lparr>messages := (messages s1)(last es \<mapsto> ml0\<lparr>m_next := Some a\<rparr>)\<rparr>"
      by (simp add: msg_upd_def)
    from e2 q1 have q2: "queues s2 q = Some mq" by simp
    with s3 have e3: "s3 = s2\<lparr>queues := (queues s2)(q \<mapsto> mq\<lparr>q_tail := NextOf a\<rparr>)\<rparr>"
      by (simp add: mq_upd_def)
    from la l show ?thesis by (auto simp: e3 e2 s1_def)
  qed
  with out show "messages (engine_of out) a =
           Some \<lparr>m_message = m, m_sender = None, m_reply_queue = rq, m_next = None\<rparr>"
    and "\<forall>x. x \<noteq> q \<longrightarrow> queues (engine_of out) x = queues s x"
    and "\<forall>x. x \<notin> set es \<and> x \<noteq> a \<longrightarrow> messages (engine_of out) x = messages s x"
    by (simp_all add: new_def)
qed

lemma enqueue_message_other:
  assumes inv: "mq_inv s q es" and fresh: "messages s a = None"
    and run: "enqueue_message q m None rq a k s = Some out"
    and other: "mq_inv s q' rs" and ne: "q' \<noteq> q" and sep: "set es \<inter> set rs = {}"
  shows "mq_inv (engine_of out) q' rs" and "payloads (engine_of out) rs = payloads s rs"
proof -
  note w = enqueue_message_writes[OF inv fresh run]
  have same: "\<forall>e \<in> set rs. messages (engine_of out) e = messages s e"
  proof
    fix e assume e: "e \<in> set rs"
    with mq_inv_allocated[OF other, of e] fresh have "e \<noteq> a" by auto
    moreover from e sep have "e \<notin> set es" by auto
    ultimately show "messages (engine_of out) e = messages s e" using w(3) by simp
  qed
  from w(2) ne have "queues (engine_of out) q' = queues s q'" by simp
  from mq_inv_cong[OF this same other] show "mq_inv (engine_of out) q' rs" .
  show "payloads (engine_of out) rs = payloads s rs"
    by (rule payloads_cong) (use same in auto)
qed

text \<open>An entry without a sender is left as it is by whatever keeps the frame.\<close>

lemma frame_entry:
  assumes f: "frame S s s'" and m: "messages s e = Some m" and n: "m_sender m = None"
  shows "messages s' e = Some m"
proof -
  from frame_mq_same[OF f] have "map_option msg_core (messages s' e) = map_option msg_core (messages s e)"
    unfolding mq_same_def by (elim conjE allE)
  with m obtain m' :: message_t where m': "messages s' e = Some m'" "msg_core m' = msg_core m"
    by auto
  from frame_no_new_senders[OF f] have "messages s' e = Some m' \<longrightarrow>
        m_sender m' = None \<or> (\<exists>m0. messages s e = Some m0 \<and> m_sender m0 = m_sender m')"
    unfolding no_new_senders_def by (elim allE)
  with m' m n have "m_sender m' = None" by auto
  with m'(2) n have "m' = m" by (cases m', cases m) (simp add: msg_core_def)
  with m'(1) show ?thesis by simp
qed

text \<open>
  \<open>dequeue_message\<close> on one queue leaves the pending entries of another queue, when
  the entry it takes is not one of them.
\<close>

lemma dequeue_message_other:
  assumes run: "dequeue_message rq cell s = Some (message, cell', s5)"
    and inv: "mq_inv s q es" and ne: "q \<noteq> rq"
    and sep: "\<forall>mq h. queues s rq = Some mq \<and> q_head mq = Some h \<longrightarrow> h \<notin> set es"
  shows "mq_inv s5 q es" and "payloads s5 es = payloads s es"
    and "\<forall>e m. e \<in> set es \<and> messages s e = Some m \<and> m_sender m = None \<longrightarrow> messages s5 e = Some m"
proof -
  have "mq_inv s5 q es \<and> payloads s5 es = payloads s es \<and>
    (\<forall>e m. e \<in> set es \<and> messages s e = Some m \<and> m_sender m = None \<longrightarrow> messages s5 e = Some m)"
    using run
  proof (cases rule: dequeue_messageE)
    case (empty q0)
    with ne have "queues s5 q = queues s q" "messages s5 = messages s" by simp_all
    with inv show ?thesis
      by (auto intro: mq_inv_cong payloads_cong)
  next
    case (head q0 h m s1 m1 s2)
    from sep head(1,2) have hn: "h \<notin> set es" by blast
    let ?S = "{ROUTINES_SUSPENDED, ROUTINES_RUNNING}"
    have f: "frame ?S s s1"
      using head(4) by (auto split: option.splits dest: resume_frame)
    from mq_same_inv[OF frame_mq_same[OF f] inv] have i1: "mq_inv s1 q es" .
    from head(6) ne have q2: "queues s2 q = queues s1 q" "messages s2 = messages s1"
      by (auto simp: mq_upd_Some)
    from head(9) ne q2 have 5: "queues s5 q = queues s1 q"
      "messages s5 = (messages s1)(h := None)"
      by (auto simp: mq_upd_Some split: if_splits)
    from 5(2) hn have same: "\<forall>e \<in> set es. messages s5 e = messages s1 e" by auto
    from mq_inv_cong[OF 5(1) same i1] have "mq_inv s5 q es" .
    moreover have "payloads s5 es = payloads s1 es"
      by (rule payloads_cong) (use same in auto)
    with mq_same_payloads[OF frame_mq_same[OF f], of es]
    have "payloads s5 es = payloads s es" by simp
    moreover have "\<forall>e m. e \<in> set es \<and> messages s e = Some m \<and> m_sender m = None \<longrightarrow>
        messages s5 e = Some m"
    proof (intro allI impI)
      fix e and m :: message_t
      assume a: "e \<in> set es \<and> messages s e = Some m \<and> m_sender m = None"
      with frame_entry[OF f, of e m] have "messages s1 e = Some m" by simp
      with a same show "messages s5 e = Some m" by simp
    qed
    ultimately show ?thesis by simp
  qed
  then show "mq_inv s5 q es" and "payloads s5 es = payloads s es"
    and "\<forall>e m. e \<in> set es \<and> messages s e = Some m \<and> m_sender m = None \<longrightarrow> messages s5 e = Some m"
    by simp_all
qed

text \<open>
  A caller of \<open>routines_call\<close> that is entered again, with a message pending on its reply
  queue: its call returns the payload of the head entry.
\<close>

lemma wake_receives:
  assumes cur: "current_coroutine s = Some p" and c: "coroutines s p = Some c"
    and ctx: "c_context c = Some (In_transfer (Then_recv q)) \<or>
              c_context c = Some (In_transfer (Then_dequeue q None))"
    and mq: "queues s q = Some mq" and h: "q_head mq = Some h" and m: "messages s h = Some m"
    and run: "wake s = Some out"
  shows "\<exists>s'. out = Returned (RMsg (m_message m) None) s'"
proof -
  from run cur c obtain k s1 where k: "c_context c = Some (In_transfer k)"
    and r: "reclaim_exited s = Some s1" and rc: "resume_cont k s1 = Some out"
    using ctx by (auto simp: wake_def elim!: bindE)
  from reclaim_exited_queues[OF r] mq m have 1: "queues s1 q = Some mq" "messages s1 h = Some m"
    by simp_all
  have d: "dequeue_returned q None s1 = Some out"
  proof -
    from ctx k have "k = Then_recv q \<or> k = Then_dequeue q None" by auto
    then show ?thesis
    proof
      assume "k = Then_dequeue q None"
      with rc show ?thesis by (simp add: resume_cont_def)
    next
      assume "k = Then_recv q"
      with rc have "recv q None s1 = Some out" by (simp add: resume_cont_def)
      then show ?thesis
      proof (cases rule: recvE)
        case pending
        then show ?thesis by simp
      next
        case (parked s')
        with 1 h show ?thesis by (simp add: pending_messages_def)
      next
        case (at_once v s')
        with 1 h show ?thesis by (simp add: pending_messages_def)
      qed
    qed
  qed
  then obtain message cell s' where dm: "dequeue_message q None s1 = Some (message, cell, s')"
    and out: "out = Returned (RMsg message cell) s'"
    unfolding dequeue_returned_def by (auto elim!: bindE)
  from dequeue_message_co_frame(3)[OF dm] have "cell = None" by simp
  moreover from dm 1 h have "message = m_message m"
    by (cases rule: dequeue_messageE) auto
  ultimately show ?thesis using out by simp
qed

section \<open>Evaluating the model on concrete runs\<close>

lemmas eval_defs =
  mem_defs coroutine_enqueue_def coroutine_dequeue_def coroutine_remove_def
  push_stack_def free_stack_def pop_stack_def alloc_stack_def reclaim_exited_def STACK_SIZE_def
  routines_spawn_def routine_entry_def transfer_def routines_suspend_def suspend_then_def routines_resume_def
  enqueue_message_def dequeue_message_def send_def recv_def dequeue_returned_def
  resume_cont_def wake_def pending_messages_def routines_yield_def routines_join_def
  routines_send_def routines_wait_def routines_signal_def routines_read_def routines_call_def
  routines_recv_def routines_post_def routines_state_def routines_self_def
  routines_queue_create_def routines_queue_destroy_def routines_suspend_self_def
  routines_destroy_def destroy_rest_def
  initial_engine_def observe_def links_def Let_def

lemmas run_defs = spawned_run_def waiting_run_def sending_run_def resumed_run_def
  served_run_def calling_run_def nested_run_def parked_child_run_def crowded_run_def
  destroyed_run_def holding_run_def unwritten_run_def two_parked_run_def
  two_ready_run_def suspended_run_def

section \<open>The claims\<close>

subsection \<open>C1: destroying a queue with blocked senders\<close>

text \<open>
  C1, as amended. Let the queue \<open>q\<close> hold the pending entries \<open>es\<close> (the chain of
  allocated entries from its \<open>head\<close>, ending at NULL) and no parked receiver. Let every
  coroutine that one of these entries records as its sender be parked on that entry: it
  is not the current coroutine, its state is BlockedSend, its \<open>message\<close> pointer
  points into the entry, its queue pointer is NULL and so are its \<open>next\<close> and
  \<open>prev\<close> links (\<open>senders_parked\<close>). Let the tail of the ready queue, if there is
  one, be an allocated coroutine with the ready queue as its queue pointer. Then
  \<open>routines_queue_destroy\<close> returns, the queue and all the entries \<open>es\<close> are freed,
  and every recorded sender has been resumed: it is Running, its queue pointer is the
  ready queue, and its \<open>message\<close> pointer is NULL.
\<close>

theorem queue_destroy_resumes_blocked_senders:
  assumes "queues s q = Some mq" and "msg_chain s (q_head mq) es"
    and "head (q_recv_queue mq) = None"
    and "senders_parked s es" and "ready_tail_linked s"
  shows "\<exists>s'. routines_queue_destroy (Some q) s = Some s' \<and> queues s' q = None \<and>
           (\<forall>e \<in> set es. messages s' e = None) \<and>
           (\<forall>a \<in> set (senders_of s es). resumed s' a)"
proof -
  from discard_messages_all[OF assms(1,2) msg_chain_distinct[OF assms(2)] assms(4,5)]
  obtain s1 mq1 where
    di: "discard_messages q s = Some s1"
    and q1: "queues s1 q = Some mq1" "q_recv_queue mq1 = q_recv_queue mq"
    and freed: "\<forall>e \<in> set es. messages s1 e = None"
    and res: "\<forall>a \<in> set (senders_of s es). resumed s1 a"
    by blast
  define s2 where "s2 = s1\<lparr>queues := (queues s1)(q \<mapsto>
      mq1\<lparr>q_recv_queue := (q_recv_queue mq1)\<lparr>tail := None\<rparr>\<rparr>)\<rparr>"
  have "coroutine_dequeue (RecvQ q) s1 = Some (None, s2)"
    using q1 assms(3) by (simp add: coroutine_dequeue_def mem_defs s2_def)
  then have ra: "resume_all (RecvQ q) s1 = Some s2"
    by (subst resume_all.simps) simp
  have "routines_queue_destroy (Some q) s = Some (s2\<lparr>queues := (queues s2)(q := None)\<rparr>)"
    using di ra by (simp add: routines_queue_destroy_def s2_def)
  moreover have "\<And>a. resumed (s2\<lparr>queues := (queues s2)(q := None)\<rparr>) a = resumed s1 a"
    by (simp add: resumed_def s2_def)
  moreover have "messages (s2\<lparr>queues := (queues s2)(q := None)\<rparr>) = messages s1"
    by (simp add: s2_def)
  ultimately show ?thesis
    using freed res by simp
qed

theorem queue_destroy_resumes_blocked_senders_witness:
  "\<exists>s mq s'. sending_run = Some s \<and> queues s 10 = Some mq \<and>
     msg_chain s (q_head mq) [20] \<and> head (q_recv_queue mq) = None \<and>
     senders_parked s [20] \<and> senders_of s [20] = [1] \<and> ready_tail_linked s \<and>
     observe 1 s = Some (ROUTINES_BLOCKED_SEND, None, Some 20) \<and>
     routines_queue_destroy (Some 10) s = Some s' \<and> queues s' 10 = None \<and>
     messages s' 20 = None \<and> resumed s' 1"
proof -
  obtain s where s: "sending_run = Some s"
    by (simp add: run_defs eval_defs)
  obtain mq where mq: "queues s 10 = Some mq" "q_head mq = Some 20"
    "head (q_recv_queue mq) = None"
    using s by (auto simp: run_defs eval_defs)
  have ch: "msg_chain s (q_head mq) [20]"
    using s mq(2) by (auto simp: run_defs eval_defs)
  have sp: "senders_parked s [20]"
    using s by (auto simp: run_defs eval_defs senders_parked_def entry_parked_def
        parked_sender_def)
  have so: "senders_of s [20] = [1]"
    using s by (auto simp: run_defs eval_defs senders_of_def sender_of_def)
  have r: "ready_tail_linked s"
    using s by (auto simp: run_defs eval_defs ready_tail_linked_def)
  have o: "observe 1 s = Some (ROUTINES_BLOCKED_SEND, None, Some 20)"
    using s by (auto simp: run_defs eval_defs)
  from queue_destroy_resumes_blocked_senders[OF mq(1) ch mq(3) sp r] so
  obtain s' where s': "routines_queue_destroy (Some 10) s = Some s'" "queues s' 10 = None"
    "messages s' 20 = None" "resumed s' 1"
    by auto
  show ?thesis
    apply (rule exI[of _ s])
    apply (rule exI[of _ mq])
    apply (rule exI[of _ s'])
    using s mq ch sp so r o s'
    apply simp
    done
qed

text \<open>
  C1 as stated fails. In \<open>sending_run\<close> coroutine 1 is in BlockedSend, recorded as
  the sender of the entry 20 pending on queue 10. After root destroys queue 10, the entry
  and the queue are freed and coroutine 1 is Running on the ready queue, not in BlockedSend.
\<close>

theorem queue_destroy_resumes_sender_counterexample:
  "map_option (\<lambda>s. (observe 1 s, map_option m_sender (messages s 20))) sending_run =
     Some (Some (ROUTINES_BLOCKED_SEND, None, Some 20), Some (Some 1)) \<and>
   map_option (\<lambda>s. (observe 1 s, messages s 20, queues s 10)) destroyed_run =
     Some (Some (ROUTINES_RUNNING, Some ReadyQ, None), None, None)"
  apply (rule conjI)
   apply (simp add: run_defs eval_defs)
  apply (simp add: run_defs eval_defs routines_queue_destroy_def)
  apply (subst discard_messages.simps)
  apply (simp add: eval_defs)
  apply (subst discard_messages.simps)
  apply (simp add: eval_defs)
  apply (subst resume_all.simps)
  apply (simp add: eval_defs)
  done

subsection \<open>C2: what \<open>routines_call\<close> does\<close>

text \<open>
  C2, as amended. \<open>routines_call\<close> passes no sender to \<open>send\<close>: its send is not a
  blocking one. Let the current coroutine \<open>p\<close>, not in BlockedSend, with NULL \<open>message\<close>
  pointer, recorded as sender by no entry and at the head of neither the ready queue nor
  the receiver queue of the send queue, call \<open>routines_call\<close> with a send queue whose
  pending entries are \<open>es\<close> and another queue as reply queue, whose pending entries
  \<open>rs\<close> are none of \<open>es\<close>; let \<open>malloc\<close> return an unallocated entry, and let the
  call not abort. Then:
  \<^item> \<open>p\<close> is not left in BlockedSend, its \<open>message\<close> pointer stays NULL, and no entry
    records \<open>p\<close> as its sender;
  \<^item> the new entry, with the payload, no sender and the reply queue, is the last pending
    entry of the send queue, after \<open>es\<close>;
  \<^item> with a receiver parked on the send queue, control is with the head receiver, and
    \<open>p\<close> is Running at the tail of the ready queue with a context that goes on to the
    receive on the reply queue (\<open>Then_recv\<close>);
  \<^item> with none parked and nothing pending on the reply queue, control is with the head of
    the ready queue (the root context if there is none), and \<open>p\<close> is in BlockedRecv at
    the tail of the receiver queue of the reply queue, inside that receive
    (\<open>Then_dequeue\<close>);
  \<^item> with none parked and a message pending on the reply queue, the call returns the
    payload of the head entry of the reply queue, and that entry is no longer pending;
  \<^item> when control has left \<open>p\<close> and \<open>p\<close> is entered again from the context it was left
    with, a message being pending on the reply queue, then its call, if it does not abort,
    returns the payload of the head entry of the reply queue.
\<close>

theorem call_sends_without_blocking:
  assumes cur: "current_coroutine s = Some p"
    and c: "coroutines s p = Some c"
    and st: "c_state c \<noteq> ROUTINES_BLOCKED_SEND"
    and msg: "c_message c = None"
    and nos: "\<forall>e m. messages s e = Some m \<longrightarrow> m_sender m \<noteq> Some p"
    and fresh: "messages s new_tail = None"
    and sqi: "mq_inv s sq es" and rqi: "mq_inv s rq rs"
    and ne: "sq \<noteq> rq" and sep: "set es \<inter> set rs = {}"
    and mq: "queues s sq = Some mq"
    and nh1: "head (q_recv_queue mq) \<noteq> Some p" and nh2: "head (ready_queue s) \<noteq> Some p"
    and run: "routines_call (Some sq) message (Some rq) new_tail s = Some out"
  shows "\<exists>c'. coroutines (engine_of out) p = Some c' \<and>
           c_state c' \<noteq> ROUTINES_BLOCKED_SEND \<and> c_message c' = None \<and>
           (\<forall>e m. messages (engine_of out) e = Some m \<longrightarrow> m_sender m \<noteq> Some p) \<and>
           mq_inv (engine_of out) sq (es @ [new_tail]) \<and>
           payloads (engine_of out) (es @ [new_tail]) = payloads s es @ [message] \<and>
           messages (engine_of out) new_tail =
             Some \<lparr>m_message = message, m_sender = None, m_reply_queue = Some rq, m_next = None\<rparr> \<and>
           (case head (q_recv_queue mq) of
              Some r \<Rightarrow>
                switched out \<and> current_coroutine (engine_of out) = Some r \<and>
                c_state c' = ROUTINES_RUNNING \<and> c_queue c' = Some ReadyQ \<and>
                tail (ready_queue (engine_of out)) = Some p \<and>
                c_context c' = Some (In_transfer (Then_recv rq)) \<and>
                mq_inv (engine_of out) rq rs
            | None \<Rightarrow>
                (case rs of
                   [] \<Rightarrow>
                     switched out \<and> current_coroutine (engine_of out) = head (ready_queue s) \<and>
                     c_state c' = ROUTINES_BLOCKED_RECV \<and> c_queue c' = Some (RecvQ rq) \<and>
                     map_option (\<lambda>q. tail (q_recv_queue q)) (queues (engine_of out) rq) =
                       Some (Some p) \<and>
                     c_context c' = Some (In_transfer (Then_dequeue rq None)) \<and>
                     mq_inv (engine_of out) rq []
                 | h # hs \<Rightarrow>
                     (\<exists>s'. out = Returned (RMsg (hd (payloads s rs)) None) s' \<and>
                        current_coroutine s' = Some p \<and> mq_inv s' rq hs))) \<and>
           (\<forall>s2 c2 mq2 h m out2.
              switched out \<and> current_coroutine s2 = Some p \<and> coroutines s2 p = Some c2 \<and>
              c_context c2 = c_context c' \<and> queues s2 rq = Some mq2 \<and> q_head mq2 = Some h \<and>
              messages s2 h = Some m \<and> wake s2 = Some out2 \<longrightarrow>
              (\<exists>s3. out2 = Returned (RMsg (m_message m) None) s3))"
proof -
  let ?S = "{ROUTINES_BLOCKED_RECV, ROUTINES_RUNNING, ROUTINES_SUSPENDED}"
  let ?entry = "\<lparr>m_message = message, m_sender = None, m_reply_queue = Some rq, m_next = None\<rparr>"
  let ?k = "Then_recv rq"
  from run obtain o1 where
    snd: "send sq message None (Some rq) new_tail ?k s = Some o1"
    and rest: "(case o1 of
        Switched s' \<Rightarrow> Some (Switched s')
      | Returned v s' \<Rightarrow> recv rq None s') = Some out"
    unfolding routines_call_def by (auto elim!: bindE)
  text \<open>The caller is never recorded as a sender.\<close>
  from send_no_sender_frame[OF snd]
  have f1: "co_frame ?S s (engine_of o1)" and n1: "no_new_senders s (engine_of o1)"
    by (auto elim: co_frame_mono)
  note c1 = send_no_sender_current[OF snd cur]
  have fo: "co_frame ?S s (engine_of out) \<and> no_new_senders s (engine_of out)"
  proof (cases o1)
    case (Switched s')
    with rest have "out = o1" by simp
    with f1 n1 show ?thesis by simp
  next
    case (Returned v s1)
    with rest have r: "recv rq None s1 = Some out" by simp
    from recv_co_frame[OF r] f1 Returned have "co_frame ?S s (engine_of out)"
      by (auto intro: co_frame_trans)
    moreover from recv_senders[OF r] n1 Returned have "no_new_senders s (engine_of out)"
      by (auto intro: no_new_senders_trans)
    ultimately show ?thesis by simp
  qed
  from fo c obtain c' :: routines_coroutine where c': "coroutines (engine_of out) p = Some c'"
    and "c_message c' = c_message c \<or> c_message c' = None"
    and "c_state c' = c_state c \<or> c_state c' \<in> ?S"
    unfolding co_frame_def by blast
  with st msg have good: "c_state c' \<noteq> ROUTINES_BLOCKED_SEND" "c_message c' = None"
    by auto
  have senders: "\<forall>e m. messages (engine_of out) e = Some m \<longrightarrow> m_sender m \<noteq> Some p"
  proof (intro allI impI)
    fix e and m :: message_t
    assume m: "messages (engine_of out) e = Some m"
    from fo have "messages (engine_of out) e = Some m \<longrightarrow>
        m_sender m = None \<or> (\<exists>m0. messages s e = Some m0 \<and> m_sender m0 = m_sender m)"
      unfolding no_new_senders_def by (elim conjE allE)
    with m nos show "m_sender m \<noteq> Some p" by auto
  qed
  text \<open>The admission, and the receive that follows it.\<close>
  have main: "mq_inv (engine_of out) sq (es @ [new_tail]) \<and>
           payloads (engine_of out) (es @ [new_tail]) = payloads s es @ [message] \<and>
           messages (engine_of out) new_tail = Some ?entry \<and>
           (case head (q_recv_queue mq) of
              Some r \<Rightarrow>
                switched out \<and> current_coroutine (engine_of out) = Some r \<and>
                c_state c' = ROUTINES_RUNNING \<and> c_queue c' = Some ReadyQ \<and>
                tail (ready_queue (engine_of out)) = Some p \<and>
                c_context c' = Some (In_transfer (Then_recv rq)) \<and>
                mq_inv (engine_of out) rq rs
            | None \<Rightarrow>
                (case rs of
                   [] \<Rightarrow>
                     switched out \<and> current_coroutine (engine_of out) = head (ready_queue s) \<and>
                     c_state c' = ROUTINES_BLOCKED_RECV \<and> c_queue c' = Some (RecvQ rq) \<and>
                     map_option (\<lambda>q. tail (q_recv_queue q)) (queues (engine_of out) rq) =
                       Some (Some p) \<and>
                     c_context c' = Some (In_transfer (Then_dequeue rq None)) \<and>
                     mq_inv (engine_of out) rq []
                 | h # hs \<Rightarrow>
                     (\<exists>s'. out = Returned (RMsg (hd (payloads s rs)) None) s' \<and>
                        current_coroutine s' = Some p \<and> mq_inv s' rq hs)))"
    using snd
  proof (cases rule: send_no_senderE)
    case (rendezvous srv s1 s2)
    note d = dequeue_recv_facts[OF rendezvous(1)]
    from d(5) mq have h: "head (q_recv_queue mq) = Some srv" by simp
    with nh1 have np: "srv \<noteq> p" by auto
    have same1: "mq_same s s1"
      using coroutine_dequeue_links[OF rendezvous(1)] by (intro frame_mq_same links_only_frame)
    note i1 = mq_same_inv[OF same1 sqi] mq_same_inv[OF same1 rqi]
    from d(3) fresh have fresh1: "messages s1 new_tail = None" by simp
    note a2 = enqueue_message_inv[OF i1(1) fresh1 rendezvous(2)]
      enqueue_message_writes(1)[OF i1(1) fresh1 rendezvous(2)]
      enqueue_message_other[OF i1(1) fresh1 rendezvous(2) i1(2) ne[symmetric] sep]
    from a2(2) mq_same_payloads[OF same1, of es]
    have p2: "payloads s2 (es @ [new_tail]) = payloads s es @ [message]" by simp
    from enqueue_message_no_sender[OF rendezvous(2)] d(2) cur
    have cur2: "current_coroutine s2 = Some p" by simp
    note t = rendezvous(3)
    note ft = transfer_frame[OF t]
    note same = frame_mq_same[OF ft]
    from transfer_control(1)[OF t cur2] have ct:
      "control_to p (Some srv) ROUTINES_RUNNING (Some ReadyQ) o1" by simp
    with np have sw: "switched o1" by (simp add: control_to_def)
    then obtain s' where o1: "o1 = Switched s'" by (cases o1) auto
    with rest have out: "out = o1" by simp
    from c1 o1 out c' have ctx: "c_context c' = Some (In_transfer ?k)" by auto
    from ct np out c' have left: "current_coroutine (engine_of out) = Some srv"
      "c_state c' = ROUTINES_RUNNING" "c_queue c' = Some ReadyQ"
      "tail (ready_queue (engine_of out)) = Some p"
      by (auto simp: control_to_def cq_get_def)
    from a2(1) have "mq_inv (engine_of o1) sq (es @ [new_tail])"
      using mq_same_inv[OF same] by simp
    moreover from p2 mq_same_payloads[OF same, of "es @ [new_tail]"]
    have "payloads (engine_of o1) (es @ [new_tail]) = payloads s es @ [message]" by simp
    moreover from frame_entry[OF ft] a2(3)
    have "messages (engine_of o1) new_tail = Some ?entry" by simp
    moreover from a2(4) have "mq_inv (engine_of o1) rq rs"
      using mq_same_inv[OF same] by simp
    ultimately show ?thesis using h sw out left ctx by simp
  next
    case (queued s1 s2)
    note d = dequeue_recv_facts[OF queued(1)]
    from d(5) mq have h: "head (q_recv_queue mq) = None" by simp
    have same1: "mq_same s s1"
      using coroutine_dequeue_links[OF queued(1)] by (intro frame_mq_same links_only_frame)
    note i1 = mq_same_inv[OF same1 sqi] mq_same_inv[OF same1 rqi]
    from d(3) fresh have fresh1: "messages s1 new_tail = None" by simp
    note a2 = enqueue_message_inv[OF i1(1) fresh1 queued(2)]
      enqueue_message_writes(1)[OF i1(1) fresh1 queued(2)]
      enqueue_message_other[OF i1(1) fresh1 queued(2) i1(2) ne[symmetric] sep]
    from a2 have i2: "mq_inv s2 sq (es @ [new_tail])" "mq_inv s2 rq rs"
      and e2: "messages s2 new_tail = Some ?entry"
      and r2: "payloads s2 rs = payloads s1 rs" by simp_all
    from a2(2) mq_same_payloads[OF same1, of es]
    have p2: "payloads s2 (es @ [new_tail]) = payloads s es @ [message]" by simp
    from r2 mq_same_payloads[OF same1, of rs] have r2: "payloads s2 rs = payloads s rs" by simp
    from enqueue_message_no_sender[OF queued(2)] d(1,2) cur
    have cur2: "current_coroutine s2 = Some p" and rq2: "ready_queue s2 = ready_queue s" by simp_all
    from queued(3) rest have r: "recv rq None s2 = Some out" by simp
    from i2(2) obtain mr where mr: "queues s2 rq = Some mr" "msg_chain s2 (q_head mr) rs"
      by (auto simp: mq_inv_def split: option.splits)
    show ?thesis
    proof (cases rs)
      case Nil
      with mr have hd: "q_head mr = None" by simp
      from recv_control[OF r cur2 mr(1)] hd rq2
      have ct: "control_to p (head (ready_queue s)) ROUTINES_BLOCKED_RECV (Some (RecvQ rq)) out"
        by simp
      with nh2 have sw: "switched out" by (simp add: control_to_def)
      from ct nh2 c' have left: "current_coroutine (engine_of out) = head (ready_queue s)"
        "c_state c' = ROUTINES_BLOCKED_RECV" "c_queue c' = Some (RecvQ rq)"
        "map_option (\<lambda>q. tail (q_recv_queue q)) (queues (engine_of out) rq) = Some (Some p)"
        by (auto simp: control_to_def cq_get_def split: option.splits)
      from recv_outcome[OF r cur2] sw c'
      have ctx: "c_context c' = Some (In_transfer (Then_dequeue rq None))"
        by (cases out) auto
      from r have ft: "frame {ROUTINES_BLOCKED_RECV, ROUTINES_RUNNING} s2 (engine_of out)"
      proof (cases rule: recvE)
        case pending
        with mr hd show ?thesis by (simp add: pending_messages_def)
      next
        case (parked s')
        from transfer_frame[OF parked(2)] parked(3) show ?thesis by simp
      next
        case (at_once v s')
        from dequeue_returned_facts(3)[OF at_once(3)] sw show ?thesis by auto
      qed
      note same = frame_mq_same[OF ft]
      from mq_same_inv[OF same i2(1)] mq_same_inv[OF same i2(2)]
        mq_same_payloads[OF same, of "es @ [new_tail]"] p2 frame_entry[OF ft e2]
      have "mq_inv (engine_of out) sq (es @ [new_tail])" "mq_inv (engine_of out) rq rs"
        "payloads (engine_of out) (es @ [new_tail]) = payloads s es @ [message]"
        "messages (engine_of out) new_tail = Some ?entry" by simp_all
      with h Nil sw left ctx show ?thesis by simp
    next
      case (Cons hh hs)
      with mr have hd: "q_head mr = Some hh" by simp
      from r obtain msg' cell' s5 where
        dm: "dequeue_message rq None s2 = Some (msg', cell', s5)"
        and out: "out = Returned (RMsg msg' cell') s5"
      proof (cases rule: recvE)
        case pending
        then show ?thesis using that
          unfolding dequeue_returned_def by (auto elim!: bindE)
      next
        case (parked s')
        with mr hd show ?thesis by (simp add: pending_messages_def)
      next
        case (at_once v s')
        with mr hd show ?thesis by (simp add: pending_messages_def)
      qed
      from dequeue_message_inv[OF i2(2) dm] Cons
      have dq: "[msg'] = payloads s2 [hh]" "mq_inv s5 rq hs" by simp_all
      from r2 Cons have "payloads s2 [hh] = [hd (payloads s rs)]"
        by (simp add: payloads_def)
      with dq(1) have m': "msg' = hd (payloads s rs)" by simp
      from dequeue_message_co_frame(2,3)[OF dm] cur2
      have c5: "current_coroutine s5 = Some p" and cell: "cell' = None" by simp_all
      have hn: "hh \<notin> set (es @ [new_tail])"
      proof -
        from Cons sep have "hh \<notin> set es" by auto
        moreover from mq_inv_allocated[OF rqi, of hh] Cons fresh have "hh \<noteq> new_tail" by auto
        ultimately show ?thesis by simp
      qed
      have sep2: "\<forall>mq h. queues s2 rq = Some mq \<and> q_head mq = Some h \<longrightarrow>
          h \<notin> set (es @ [new_tail])"
        using mr(1) hd hn by auto
      note o = dequeue_message_other[OF dm i2(1) ne sep2]
      from o(3) e2 have "messages s5 new_tail = Some ?entry" by simp
      with o(1,2) p2 out m' cell c5 dq(2) h Cons show ?thesis by simp
    qed
  qed
  text \<open>When the caller is entered again, it receives from the reply queue.\<close>
  have later: "\<forall>s2 c2 mq2 h m out2.
              switched out \<and> current_coroutine s2 = Some p \<and> coroutines s2 p = Some c2 \<and>
              c_context c2 = c_context c' \<and> queues s2 rq = Some mq2 \<and> q_head mq2 = Some h \<and>
              messages s2 h = Some m \<and> wake s2 = Some out2 \<longrightarrow>
              (\<exists>s3. out2 = Returned (RMsg (m_message m) None) s3)"
  proof (intro allI impI)
    fix s2 :: engine and c2 :: routines_coroutine and mq2 :: routines_queue and h
      and m :: message_t and out2
    assume a: "switched out \<and> current_coroutine s2 = Some p \<and> coroutines s2 p = Some c2 \<and>
              c_context c2 = c_context c' \<and> queues s2 rq = Some mq2 \<and> q_head mq2 = Some h \<and>
              messages s2 h = Some m \<and> wake s2 = Some out2"
    with main have "c_context c' = Some (In_transfer (Then_recv rq)) \<or>
              c_context c' = Some (In_transfer (Then_dequeue rq None))"
      by (cases "head (q_recv_queue mq)"; cases rs) auto
    with a have "c_context c2 = Some (In_transfer (Then_recv rq)) \<or>
              c_context c2 = Some (In_transfer (Then_dequeue rq None))" by simp
    from wake_receives[OF _ _ this] a
    show "\<exists>s3. out2 = Returned (RMsg (m_message m) None) s3" by blast
  qed
  from c' good senders main later show ?thesis by blast
qed


theorem call_sends_without_blocking_witness:
  "\<exists>s c mq out c' t d mt out' d'.
     spawned_run = Some s \<and> current_coroutine s = Some 1 \<and>
     coroutines s 1 = Some c \<and> c_state c \<noteq> ROUTINES_BLOCKED_SEND \<and> c_message c = None \<and>
     messages s = Map.empty \<and> mq_inv s 10 [] \<and> mq_inv s 11 [] \<and>
     queues s 10 = Some mq \<and> head (q_recv_queue mq) = None \<and> head (ready_queue s) = None \<and>
     routines_call (Some 10) (Some 99) (Some 11) 20 s = Some out \<and>
     coroutines (engine_of out) 1 = Some c' \<and>
     switched out \<and> current_coroutine (engine_of out) = None \<and>
     c_state c' = ROUTINES_BLOCKED_RECV \<and> c_queue c' = Some (RecvQ 11) \<and> c_message c' = None \<and>
     c_context c' = Some (In_transfer (Then_dequeue 11 None)) \<and>
     mq_inv (engine_of out) 10 [20] \<and> payloads (engine_of out) [20] = [Some 99] \<and>
     messages (engine_of out) 20 =
       Some \<lparr>m_message = Some 99, m_sender = None, m_reply_queue = Some 11, m_next = None\<rparr> \<and>
     served_run = Some t \<and> current_coroutine t = Some 2 \<and>
     coroutines t 2 = Some d \<and> c_state d \<noteq> ROUTINES_BLOCKED_SEND \<and> c_message d = None \<and>
     messages t = Map.empty \<and> mq_inv t 10 [] \<and> mq_inv t 11 [] \<and>
     queues t 10 = Some mt \<and> head (q_recv_queue mt) = Some 1 \<and> head (ready_queue t) = None \<and>
     routines_call (Some 10) (Some 99) (Some 11) 20 t = Some out' \<and>
     coroutines (engine_of out') 2 = Some d' \<and>
     switched out' \<and> current_coroutine (engine_of out') = Some 1 \<and>
     c_state d' = ROUTINES_RUNNING \<and> c_queue d' = Some ReadyQ \<and> c_message d' = None \<and>
     tail (ready_queue (engine_of out')) = Some 2 \<and>
     c_context d' = Some (In_transfer (Then_recv 11)) \<and>
     mq_inv (engine_of out') 10 [20] \<and> payloads (engine_of out') [20] = [Some 99]"
proof -
  obtain s where s: "spawned_run = Some s"
    by (simp add: run_defs eval_defs)
  have cur: "current_coroutine s = Some 1" and m: "messages s = Map.empty"
    and rh: "head (ready_queue s) = None"
    and i: "mq_inv s 10 []" "mq_inv s 11 []"
    using s by (auto simp: run_defs eval_defs mq_inv_def)
  obtain c where c: "coroutines s 1 = Some c" "c_state c \<noteq> ROUTINES_BLOCKED_SEND" "c_message c = None"
    using s by (auto simp: run_defs eval_defs)
  obtain mq where mq: "queues s 10 = Some mq" "head (q_recv_queue mq) = None"
    using s by (auto simp: run_defs eval_defs)
  obtain out where out: "routines_call (Some 10) (Some 99) (Some 11) 20 s = Some out"
    using s by (auto simp: run_defs eval_defs)
  have nos: "\<forall>e m. messages s e = Some m \<longrightarrow> m_sender m \<noteq> Some 1"
    using m by simp
  have fresh: "messages s 20 = None" using m by simp
  from call_sends_without_blocking[OF cur c nos fresh i _ _ mq(1) _ _ out] mq(2) rh
  obtain c' where c': "coroutines (engine_of out) 1 = Some c'" "c_message c' = None"
    "mq_inv (engine_of out) 10 [20]" "payloads (engine_of out) [20] = [Some 99]"
    "messages (engine_of out) 20 =
       Some \<lparr>m_message = Some 99, m_sender = None, m_reply_queue = Some 11, m_next = None\<rparr>"
    "switched out" "current_coroutine (engine_of out) = None"
    "c_state c' = ROUTINES_BLOCKED_RECV" "c_queue c' = Some (RecvQ 11)"
    "c_context c' = Some (In_transfer (Then_dequeue 11 None))"
    by (auto simp: payloads_def)
  obtain t where t: "served_run = Some t"
    by (simp add: run_defs eval_defs)
  have curt: "current_coroutine t = Some 2" and mt: "messages t = Map.empty"
    and rht: "head (ready_queue t) = None"
    and it: "mq_inv t 10 []" "mq_inv t 11 []"
    using t by (auto simp: run_defs eval_defs mq_inv_def)
  obtain d where d: "coroutines t 2 = Some d" "c_state d \<noteq> ROUTINES_BLOCKED_SEND" "c_message d = None"
    using t by (auto simp: run_defs eval_defs)
  obtain mt' where mqt: "queues t 10 = Some mt'" "head (q_recv_queue mt') = Some 1"
    using t by (auto simp: run_defs eval_defs)
  obtain out' where out': "routines_call (Some 10) (Some 99) (Some 11) 20 t = Some out'"
    using t by (auto simp: run_defs eval_defs)
  have nost: "\<forall>e m. messages t e = Some m \<longrightarrow> m_sender m \<noteq> Some 2"
    using mt by simp
  have fresht: "messages t 20 = None" using mt by simp
  from call_sends_without_blocking[OF curt d nost fresht it _ _ mqt(1) _ _ out'] mqt(2) rht
  obtain d' where d': "coroutines (engine_of out') 2 = Some d'" "c_message d' = None"
    "mq_inv (engine_of out') 10 [20]" "payloads (engine_of out') [20] = [Some 99]"
    "switched out'" "current_coroutine (engine_of out') = Some 1"
    "c_state d' = ROUTINES_RUNNING" "c_queue d' = Some ReadyQ"
    "tail (ready_queue (engine_of out')) = Some 2"
    "c_context d' = Some (In_transfer (Then_recv 11))"
    by (auto simp: payloads_def)
  show ?thesis
    apply (rule exI[of _ s])
    apply (rule exI[of _ c])
    apply (rule exI[of _ mq])
    apply (rule exI[of _ out])
    apply (rule exI[of _ c'])
    apply (rule exI[of _ t])
    apply (rule exI[of _ d])
    apply (rule exI[of _ mt'])
    apply (rule exI[of _ out'])
    apply (rule exI[of _ d'])
    using s cur c m i mq rh out c' t curt d mt it mqt rht out' d'
    apply simp
    done
qed

text \<open>
  C2 as stated fails. Coroutine 1 calls \<open>routines_call\<close> on queue 10, where no receiver
  is parked, with the empty reply queue 11. Control leaves coroutine 1 with its state
  BlockedRecv on the reply queue, not BlockedSend, while the entry is still pending on
  queue 10, without a sender: no receiver has consumed it.
\<close>

theorem call_blocks_in_receive_counterexample:
  "map_option switched calling_run = Some True \<and>
   map_option (\<lambda>out. current_coroutine (engine_of out)) calling_run = Some None \<and>
   map_option (\<lambda>out. observe 1 (engine_of out)) calling_run =
     Some (Some (ROUTINES_BLOCKED_RECV, Some (RecvQ 11), None)) \<and>
   map_option (\<lambda>out. messages (engine_of out) 20) calling_run =
     Some (Some \<lparr>m_message = Some 99, m_sender = None, m_reply_queue = Some 11, m_next = None\<rparr>) \<and>
   map_option (\<lambda>out. map_option q_head (queues (engine_of out) 10)) calling_run =
     Some (Some (Some 20))"
  by (simp add: run_defs eval_defs)

subsection \<open>C3: what \<open>routines_spawn\<close> creates\<close>

text \<open>
  C3, as amended. A call of \<open>routines_spawn\<close> that does not abort, \<open>malloc\<close> returning
  an address \<open>a\<close> that nothing refers to, makes the new coroutine the current one at
  once: control enters it through \<open>call_on_stack\<close>. The new coroutine is not on the
  ready queue (its queue pointer and both links are NULL, and it is neither head nor tail
  of the ready queue). The caller's context is saved at the resumption point of
  \<open>routines_spawn\<close>, and when the caller is entered again from that context the call
  returns the handle \<open>a\<close>.
\<close>

theorem spawn_enters_new_coroutine:
  assumes run: "routines_spawn task arg a region s = Some out"
    and fresh: "coroutines s a = None" "current_coroutine s \<noteq> Some a"
      "head (ready_queue s) \<noteq> Some a" "tail (ready_queue s) \<noteq> Some a"
  shows "\<exists>s' c. out = Switched s' \<and> current_coroutine s' = Some a \<and>
           coroutines s' a = Some c \<and> c_entrypoint c = task \<and> c_arg c = arg \<and>
           c_queue c = None \<and> c_next c = None \<and> c_prev c = None \<and>
           head (ready_queue s') \<noteq> Some a \<and> tail (ready_queue s') \<noteq> Some a \<and>
           (case current_coroutine s of
              None \<Rightarrow> root_task s' = Some (In_spawn a)
            | Some p \<Rightarrow> (\<exists>pc. coroutines s' p = Some pc \<and> c_context pc = Some (In_spawn a))) \<and>
           (\<forall>s2 s3. current_coroutine s2 = current_coroutine s \<and>
              (case current_coroutine s of
                 None \<Rightarrow> root_task s2 = Some (In_spawn a)
               | Some p \<Rightarrow> (\<exists>pc. coroutines s2 p = Some pc \<and> c_context pc = Some (In_spawn a))) \<and>
              reclaim_exited s2 = Some s3 \<longrightarrow>
              wake s2 = Some (Returned (RHandle a) s3))"
proof -
  define new where "new = \<lparr>c_entrypoint = task, c_arg = arg,
       c_stack_base = fst (alloc_stack region s),
       c_context = None, c_state = ROUTINES_COMPLETED,
       c_join_queue = \<lparr>head = None, tail = None\<rparr>,
       c_message = None, c_queue = None, c_prev = None, c_next = None\<rparr>"
  define s1 where "s1 = (snd (alloc_stack region s))\<lparr>coroutines :=
       (coroutines (snd (alloc_stack region s)))(a \<mapsto> new)\<rparr>"
  have alloc: "coroutines (snd (alloc_stack region s)) = coroutines s"
    "current_coroutine (snd (alloc_stack region s)) = current_coroutine s"
    "ready_queue (snd (alloc_stack region s)) = ready_queue s"
    by (auto simp: alloc_stack_def pop_stack_def split: list.splits option.splits prod.splits)
  have s1: "coroutines s1 a = Some new" "current_coroutine s1 = current_coroutine s"
    "ready_queue s1 = ready_queue s"
    by (simp_all add: s1_def alloc)
  have "routines_spawn task arg a region s = do {
      assert (task \<noteq> None);
      s2 \<leftarrow> (case current_coroutine s1 of
            Some self \<Rightarrow> do {
              s' \<leftarrow> coroutine_enqueue ReadyQ self s1;
              co_upd self (\<lambda>c. c\<lparr>c_context := Some (In_spawn a)\<rparr>) s' }
          | None \<Rightarrow> Some (s1\<lparr>root_task := Some (In_spawn a)\<rparr>));
      routine_entry a s2 }"
    unfolding routines_spawn_def s1_def new_def
    by (simp add: Let_def case_prod_unfold)
  with run obtain s2 where
    s2: "(case current_coroutine s1 of
            Some self \<Rightarrow> do {
              s' \<leftarrow> coroutine_enqueue ReadyQ self s1;
              co_upd self (\<lambda>c. c\<lparr>c_context := Some (In_spawn a)\<rparr>) s' }
          | None \<Rightarrow> Some (s1\<lparr>root_task := Some (In_spawn a)\<rparr>)) = Some s2"
    and entry: "routine_entry a s2 = Some out"
    by (auto elim!: bindE)
  have wake: "\<forall>s2 s3. current_coroutine s2 = current_coroutine s \<and>
              (case current_coroutine s of
                 None \<Rightarrow> root_task s2 = Some (In_spawn a)
               | Some p \<Rightarrow> (\<exists>pc. coroutines s2 p = Some pc \<and> c_context pc = Some (In_spawn a))) \<and>
              reclaim_exited s2 = Some s3 \<longrightarrow>
              wake s2 = Some (Returned (RHandle a) s3)"
    by (cases "current_coroutine s") (auto simp: wake_def)
  show ?thesis
  proof (cases "current_coroutine s")
    case None
    with s2 s1 have "s2 = s1\<lparr>root_task := Some (In_spawn a)\<rparr>" by simp
    with entry None s1 have "out = Switched (s1\<lparr>root_task := Some (In_spawn a), current_coroutine := Some a\<rparr>)"
      by (simp add: routine_entry_def)
    with s1 None fresh wake show ?thesis
      by (simp add: new_def)
  next
    case (Some p)
    with fresh have pa: "p \<noteq> a" by auto
    from s2 Some s1 obtain sa where
      e1: "coroutine_enqueue ReadyQ p s1 = Some sa"
      and sb: "co_upd p (\<lambda>c. c\<lparr>c_context := Some (In_spawn a)\<rparr>) sa = Some s2"
      by (auto elim!: bindE)
    from enqueue_ready_other[OF e1 pa] s1 fresh
    have a1: "coroutines sa a = Some new" "tail (ready_queue sa) = Some p"
      "head (ready_queue sa) \<noteq> Some a" "current_coroutine sa = Some p"
      using Some pa by auto
    from sb a1 pa have a2: "coroutines s2 a = Some new" "tail (ready_queue s2) = Some p"
      "head (ready_queue s2) \<noteq> Some a" "current_coroutine s2 = Some p"
      and ctx: "\<exists>pc. coroutines s2 p = Some pc \<and> c_context pc = Some (In_spawn a)"
      by (auto simp: co_upd_Some)
    from entry a2 obtain s3 where
      e2: "coroutine_enqueue ReadyQ p s2 = Some s3"
      and out: "out = Switched (s3\<lparr>current_coroutine := Some a\<rparr>)"
      by (auto simp: routine_entry_def elim!: bindE)
    from a2 pa have "tail (ready_queue s2) \<noteq> Some a" by simp
    from enqueue_ready_other[OF e2 pa this] a2
    have a3: "coroutines s3 a = Some new" "tail (ready_queue s3) = Some p"
      "head (ready_queue s3) \<noteq> Some a"
      using pa by auto
    from coroutine_enqueue_links[OF e2] ctx
    have "\<exists>pc. coroutines s3 p = Some pc \<and> c_context pc = Some (In_spawn a)"
      by (auto dest!: links_only_coroutine)
    with out a3 pa Some wake show ?thesis
      by (simp add: new_def)
  qed
qed

theorem spawn_enters_new_coroutine_witness:
  "\<exists>s s' c. nested_run = Some s' \<and> spawned_run = Some s \<and>
     coroutines s 2 = None \<and> current_coroutine s = Some 1 \<and>
     ready_queue s = \<lparr>head = None, tail = None\<rparr> \<and>
     routines_spawn (Some 8) None 2 2000 s = Some (Switched s') \<and>
     current_coroutine s' = Some 2 \<and> coroutines s' 2 = Some c \<and>
     c_entrypoint c = Some 8 \<and> c_arg c = None \<and>
     c_queue c = None \<and> c_next c = None \<and> c_prev c = None \<and>
     head (ready_queue s') \<noteq> Some 2 \<and> tail (ready_queue s') \<noteq> Some 2 \<and>
     map_option c_context (coroutines s' 1) = Some (Some (In_spawn 2))"
proof -
  obtain s where s: "spawned_run = Some s"
    by (simp add: run_defs eval_defs)
  have h: "coroutines s 2 = None" "current_coroutine s = Some 1"
    "ready_queue s = \<lparr>head = None, tail = None\<rparr>"
    using s by (auto simp: run_defs eval_defs)
  obtain out where out: "routines_spawn (Some 8) None 2 2000 s = Some out"
    using s by (auto simp: run_defs eval_defs)
  have f: "current_coroutine s \<noteq> Some 2" "head (ready_queue s) \<noteq> Some 2"
    "tail (ready_queue s) \<noteq> Some 2"
    using h by simp_all
  from spawn_enters_new_coroutine[OF out h(1) f] h(2) obtain s' c where
    r: "out = Switched s'" "current_coroutine s' = Some 2" "coroutines s' 2 = Some c"
      "c_entrypoint c = Some 8" "c_arg c = None"
      "c_queue c = None" "c_next c = None" "c_prev c = None"
      "head (ready_queue s') \<noteq> Some 2" "tail (ready_queue s') \<noteq> Some 2"
      "\<exists>pc. coroutines s' 1 = Some pc \<and> c_context pc = Some (In_spawn 2)"
    by auto
  have "nested_run = Some s'"
    by (simp add: nested_run_def s out r(1))
  with s h out r show ?thesis by auto
qed

text \<open>
  C3 as stated fails. Spawned from the root context in the initial state, the new
  coroutine is the current coroutine, the ready queue is empty, its queue pointer is
  NULL, and its state tag is the zero of the enum, Completed: \<open>routines_state\<close> called
  by the new coroutine on itself returns Completed.
\<close>

theorem spawn_not_on_ready_queue_counterexample:
  "map_option (\<lambda>out. (switched out, current_coroutine (engine_of out),
       observe 1 (engine_of out), links 1 (engine_of out), ready_queue (engine_of out)))
     (routines_spawn (Some 7) None 1 1000 initial_engine) =
   Some (True, Some 1, Some (ROUTINES_COMPLETED, None, None), Some (None, None, None),
         \<lparr>head = None, tail = None\<rparr>) \<and>
   (routines_spawn (Some 7) None 1 1000 initial_engine
      \<bind> (\<lambda>out. routines_state (routines_self (engine_of out)) (engine_of out))) =
   Some ROUTINES_COMPLETED"
  by (simp add: eval_defs)

subsection \<open>C4: queue membership across \<open>routines_spawn\<close>\<close>

text \<open>
  C4 fails on the code. \<open>routines_spawn\<close> puts a calling coroutine on the ready queue,
  and \<open>routine_entry\<close>, which still finds the caller in \<open>current_coroutine\<close>, puts it
  there a second time. With an empty ready queue (coroutine 1 spawning coroutine 2) both
  assertions of \<open>coroutine_enqueue\<close> pass, and coroutine 1 ends as its own \<open>prev\<close> and
  \<open>next\<close>, head and tail of the ready queue. Once coroutine 2 has parked itself on a
  message queue, coroutine 1 runs again: it is the current coroutine, its queue pointer is
  NULL, and it is still the head of the ready queue, linked to itself; its next
  \<open>routines_yield\<close> fails the assertion \<open>coroutine->next == NULL\<close>. With a coroutine
  already on the ready queue (coroutine 2 spawning a third), the second
  \<open>coroutine_enqueue\<close> fails the assertion \<open>coroutine->prev == NULL\<close>.
\<close>

theorem spawn_from_coroutine_enqueues_caller_twice:
  "map_option (\<lambda>s. (current_coroutine s, links 1 s, ready_queue s)) nested_run =
     Some (Some 2, Some (Some ReadyQ, Some 1, Some 1), \<lparr>head = Some 1, tail = Some 1\<rparr>) \<and>
   map_option (\<lambda>s. (current_coroutine s, observe 1 s, links 1 s, ready_queue s)) parked_child_run =
     Some (Some 1, Some (ROUTINES_RUNNING, None, None), Some (None, Some 1, Some 1),
           \<lparr>head = Some 1, tail = Some 1\<rparr>) \<and>
   map_option routines_yield parked_child_run = Some None \<and>
   map_option (\<lambda>s. (current_coroutine s, links 1 s, ready_queue s)) crowded_run =
     Some (Some 2, Some (Some ReadyQ, None, None), \<lparr>head = Some 1, tail = Some 1\<rparr>) \<and>
   map_option (routines_spawn (Some 9) None 3 3000) crowded_run = Some None"
  by (simp add: run_defs eval_defs)

subsection \<open>C5: a receiver that is resumed\<close>

text \<open>
  C5 fails on the code, and so does the comment of \<open>routines_resume\<close> in routines.h that
  it repeats (``if it was receiving then it will receive a NULL message and a NULL reply
  queue''). \<open>recv\<close> keeps no record of why it was woken: once \<open>transfer\<close> returns it
  calls \<open>dequeue_message\<close>, which delivers whatever is pending by then and writes the
  reply-queue variable only when it delivers. Coroutine 1 is parked in BlockedRecv on
  queue 10 and root resumes it. In the first run coroutine 2 posts the payload 77 with
  reply queue 11 on queue 10 before coroutine 1 is scheduled: coroutine 1 returns from its
  receive with the payload 77 and the reply queue 11. In the second run nothing is
  posted, and the reply-queue variable of coroutine 1 held queue 11 when it called
  \<open>routines_recv\<close>: coroutine 1 returns with the NULL message, and the variable still
  holds queue 11.
\<close>

theorem resumed_receiver_gets_pending_message:
  "map_option (observe 1) waiting_run = Some (Some (ROUTINES_BLOCKED_RECV, Some (RecvQ 10), None)) \<and>
   map_option (observe 1) (waiting_run \<bind> routines_resume (Some 1)) =
     Some (Some (ROUTINES_RUNNING, Some ReadyQ, None)) \<and>
   map_option current_coroutine resumed_run = Some (Some 1) \<and>
   (resumed_run \<bind> wake \<bind> returned) = Some (RMsg (Some 77) (Some (Some 11))) \<and>
   map_option (observe 1) holding_run = Some (Some (ROUTINES_BLOCKED_RECV, Some (RecvQ 10), None)) \<and>
   map_option (observe 1) (holding_run \<bind> routines_resume (Some 1)) =
     Some (Some (ROUTINES_RUNNING, Some ReadyQ, None)) \<and>
   map_option current_coroutine unwritten_run = Some (Some 1) \<and>
   (unwritten_run \<bind> wake \<bind> returned) = Some (RMsg None (Some (Some 11)))"
  by (simp add: run_defs eval_defs)

subsection \<open>C6: where control leaves the caller\<close>

text \<open>
  C6, as amended. Let the current coroutine \<open>p\<close>, which is in no coroutine queue, make
  one of the calls of routines.h, or return from its entrypoint, and let the call not
  abort. Then:
  \<^item> \<open>routines_read\<close>, \<open>routines_self\<close>, \<open>routines_state\<close>, \<open>routines_queue_create\<close>,
    \<open>routines_queue_destroy\<close> and \<open>routines_resume\<close> return to \<open>p\<close>; so do
    \<open>routines_suspend\<close> and \<open>routines_destroy\<close> of a coroutine other than \<open>p\<close>,
    \<open>routines_signal\<close> and \<open>routines_post\<close> when no receiver is parked on the queue, and
    \<open>routines_wait\<close> and \<open>routines_recv\<close> when a message is pending on it;
  \<^item> \<open>routines_spawn\<close> always leaves \<open>p\<close>: control is in the new coroutine, and \<open>p\<close> is
    the tail of the ready queue; the return from the entrypoint always leaves \<open>p\<close>,
    Completed and recorded as the exited coroutine;
  \<^item> \<open>routines_signal\<close>, \<open>routines_post\<close>, \<open>routines_send\<close> and \<open>routines_call\<close>, when a
    receiver is parked on the queue, give control to the head receiver, \<open>p\<close> being left
    Running at the tail of the ready queue (for \<open>routines_call\<close>: when that receiver is
    not \<open>p\<close>);
  \<^item> \<open>routines_join\<close>, \<open>routines_suspend_self\<close>, \<open>routines_suspend\<close> and
    \<open>routines_destroy\<close> of \<open>p\<close> itself, \<open>routines_send\<close> when no receiver is parked,
    and \<open>routines_wait\<close> and \<open>routines_recv\<close> when nothing is pending give control to the
    head of the ready queue (to the root context when there is none), \<open>p\<close> being left
    in BlockedJoin at the tail of the join queue, Suspended in no queue, in BlockedSend in
    no queue, and in BlockedRecv at the tail of the receiver queue; \<open>routines_call\<close>
    when no receiver is parked either returns to \<open>p\<close> or leaves it so on its reply queue;
  \<^item> \<open>routines_yield\<close> gives control to the head of the ready queue, and to \<open>p\<close>
    itself when the ready queue has no tail; \<open>p\<close> is left Running with the ready queue
    as its queue pointer, the tail of that queue unless the queue is left without head.
  Wherever control is given to a target, the call has left \<open>p\<close> exactly when the target
  is not \<open>p\<close> itself (\<open>control_to\<close>); otherwise it has returned to \<open>p\<close>.
\<close>

theorem control_switches_only_at:
  assumes cur: "current_coroutine s = Some p"
    and c: "coroutines s p = Some c" and nq: "c_queue c = None"
    and run: "perform call s = Some out"
  shows "case call of
      Call_spawn task arg a region \<Rightarrow>
        switched out \<and> current_coroutine (engine_of out) = Some a \<and>
        (\<exists>c'. coroutines (engine_of out) p = Some c' \<and> c_queue c' = Some ReadyQ) \<and>
        tail (ready_queue (engine_of out)) = Some p
    | Call_return \<Rightarrow>
        switched out \<and> exited_coroutine (engine_of out) = Some p \<and>
        map_option c_state (coroutines (engine_of out) p) = Some ROUTINES_COMPLETED
    | Call_destroy h \<Rightarrow>
        if h = Some p
        then control_to p (head (ready_queue s)) ROUTINES_SUSPENDED None out
        else stays p out
    | Call_self \<Rightarrow> stays p out
    | Call_state h \<Rightarrow> stays p out
    | Call_yield \<Rightarrow>
        current_coroutine (engine_of out) =
          (if tail (ready_queue s) = None then Some p else head (ready_queue s)) \<and>
        (switched out \<longleftrightarrow> current_coroutine (engine_of out) \<noteq> Some p) \<and>
        (switched out \<longrightarrow>
           (\<exists>c'. coroutines (engine_of out) p = Some c' \<and> c_state c' = ROUTINES_RUNNING \<and>
              c_queue c' = Some ReadyQ) \<and>
           (head (ready_queue (engine_of out)) \<noteq> None \<longrightarrow>
              tail (ready_queue (engine_of out)) = Some p))
    | Call_join h \<Rightarrow>
        (\<exists>a. h = Some a \<and>
           control_to p (head (ready_queue s)) ROUTINES_BLOCKED_JOIN (Some (JoinQ a)) out)
    | Call_suspend h \<Rightarrow>
        if h = Some p
        then control_to p (head (ready_queue s)) ROUTINES_SUSPENDED None out
        else stays p out
    | Call_suspend_self \<Rightarrow> control_to p (head (ready_queue s)) ROUTINES_SUSPENDED None out
    | Call_resume h \<Rightarrow> stays p out
    | Call_queue_create q \<Rightarrow> stays p out
    | Call_queue_destroy q \<Rightarrow> stays p out
    | Call_send q m e \<Rightarrow>
        (\<exists>qa mq. q = Some qa \<and> queues s qa = Some mq \<and>
           (case head (q_recv_queue mq) of
              Some r \<Rightarrow> control_to p (Some r) ROUTINES_RUNNING (Some ReadyQ) out
            | None \<Rightarrow> control_to p (head (ready_queue s)) ROUTINES_BLOCKED_SEND None out))
    | Call_wait q \<Rightarrow>
        (\<exists>qa mq. q = Some qa \<and> queues s qa = Some mq \<and>
           (if q_head mq \<noteq> None then stays p out
            else control_to p (head (ready_queue s)) ROUTINES_BLOCKED_RECV (Some (RecvQ qa)) out))
    | Call_signal q m e \<Rightarrow>
        (\<exists>qa mq. q = Some qa \<and> queues s qa = Some mq \<and>
           (case head (q_recv_queue mq) of
              Some r \<Rightarrow> control_to p (Some r) ROUTINES_RUNNING (Some ReadyQ) out
            | None \<Rightarrow> stays p out))
    | Call_read q \<Rightarrow> stays p out
    | Call_call sq m rq e \<Rightarrow>
        (\<exists>qa ra mq. sq = Some qa \<and> rq = Some ra \<and> queues s qa = Some mq \<and>
           (case head (q_recv_queue mq) of
              Some r \<Rightarrow> r \<noteq> p \<longrightarrow> control_to p (Some r) ROUTINES_RUNNING (Some ReadyQ) out
            | None \<Rightarrow> stays p out \<or>
                control_to p (head (ready_queue s)) ROUTINES_BLOCKED_RECV (Some (RecvQ ra)) out))
    | Call_recv q cell \<Rightarrow>
        (\<exists>qa mq. q = Some qa \<and> queues s qa = Some mq \<and>
           (if q_head mq \<noteq> None then stays p out
            else control_to p (head (ready_queue s)) ROUTINES_BLOCKED_RECV (Some (RecvQ qa)) out))
    | Call_post q m rq e \<Rightarrow>
        (\<exists>qa mq. q = Some qa \<and> queues s qa = Some mq \<and>
           (case head (q_recv_queue mq) of
              Some r \<Rightarrow> control_to p (Some r) ROUTINES_RUNNING (Some ReadyQ) out
            | None \<Rightarrow> stays p out))"
proof (cases call)
  case (Call_spawn task arg a region)
  with run spawn_control[of task arg a region s out p] cur show ?thesis by simp
next
  case Call_return
  with run cur have "routine_exit p s = Some out" by simp
  from exit_control[OF this] Call_return show ?thesis by simp
next
  case (Call_destroy h)
  with run destroy_control[of h s out p c] cur c nq show ?thesis by simp
next
  case Call_self
  with run cur show ?thesis by (auto simp: stays_def Let_def)
next
  case (Call_state h)
  with run cur show ?thesis by (auto simp: stays_def elim!: bindE)
next
  case Call_yield
  with run yield_control[of s out p] cur show ?thesis by simp
next
  case (Call_join h)
  with run join_control[of h s out p] cur show ?thesis by simp
next
  case (Call_suspend h)
  with run suspend_control[of h s out p c] cur c nq show ?thesis by simp
next
  case Call_suspend_self
  with run cur have "routines_suspend (Some p) s = Some out"
    by (simp add: routines_suspend_self_def routines_self_def)
  from suspend_control[OF this cur c nq] Call_suspend_self show ?thesis by simp
next
  case (Call_resume h)
  with run obtain s' where "routines_resume h s = Some s'" "out = Returned RUnit s'" by auto
  with resume_current[of h s s'] cur Call_resume show ?thesis by (simp add: stays_def)
next
  case (Call_queue_create q)
  with run cur show ?thesis by (auto simp: stays_def routines_queue_create_def)
next
  case (Call_queue_destroy q)
  with run obtain s' where "routines_queue_destroy q s = Some s'" "out = Returned RUnit s'"
    by auto
  with queue_destroy_current[of q s s'] cur Call_queue_destroy show ?thesis
    by (simp add: stays_def)
next
  case (Call_send q m e)
  with run cur obtain qa where q: "q = Some qa"
    and snd: "send qa m (Some p) None e Ret_unit s = Some out"
    by (auto simp: routines_send_def elim!: bindE)
  from send_queue_allocated[OF snd] obtain mq where mq: "queues s qa = Some mq" by blast
  from send_control[OF snd cur mq] c nq
  have "case head (q_recv_queue mq) of
              Some r \<Rightarrow> control_to p (Some r) ROUTINES_RUNNING (Some ReadyQ) out
            | None \<Rightarrow> control_to p (head (ready_queue s)) ROUTINES_BLOCKED_SEND None out"
    by (cases "head (q_recv_queue mq)") auto
  with q mq Call_send show ?thesis by simp
next
  case (Call_wait q)
  with run obtain qa where q: "q = Some qa" and r: "recv qa None s = Some out"
    by (auto simp: routines_wait_def elim!: bindE)
  from recv_queue_allocated[OF r] obtain mq where mq: "queues s qa = Some mq" by blast
  from recv_control[OF r cur mq] q mq Call_wait show ?thesis by simp
next
  case (Call_signal q m e)
  with run obtain qa where q: "q = Some qa"
    and snd: "send qa m None None e Ret_unit s = Some out"
    by (auto simp: routines_signal_def elim!: bindE)
  from send_queue_allocated[OF snd] obtain mq where mq: "queues s qa = Some mq" by blast
  from send_control[OF snd cur mq] q mq Call_signal show ?thesis
    by (cases "head (q_recv_queue mq)") auto
next
  case (Call_read q)
  with run read_returns[of q s out] cur show ?thesis by (simp add: stays_def)
next
  case (Call_call sq m rq e)
  with run call_control[of sq m rq e s out p] cur show ?thesis by simp
next
  case (Call_recv q cell)
  with run obtain qa where q: "q = Some qa" and r: "recv qa cell s = Some out"
    by (auto simp: routines_recv_def elim!: bindE)
  from recv_queue_allocated[OF r] obtain mq where mq: "queues s qa = Some mq" by blast
  from recv_control[OF r cur mq] q mq Call_recv show ?thesis by simp
next
  case (Call_post q m rq e)
  with run obtain qa where q: "q = Some qa"
    and snd: "send qa m None rq e Ret_unit s = Some out"
    by (auto simp: routines_post_def elim!: bindE)
  from send_queue_allocated[OF snd] obtain mq where mq: "queues s qa = Some mq" by blast
  from send_control[OF snd cur mq] q mq Call_post show ?thesis
    by (cases "head (q_recv_queue mq)") auto
qed

theorem control_switches_only_at_witness:
  "\<exists>s c out_signal out_yield out_wait out_read out_self out_spawn out_other.
     served_run = Some s \<and> current_coroutine s = Some 2 \<and>
     coroutines s 2 = Some c \<and> c_queue c = None \<and>
     map_option (\<lambda>mq. head (q_recv_queue mq)) (queues s 10) = Some (Some 1) \<and>
     map_option q_head (queues s 11) = Some None \<and>
     ready_queue s = \<lparr>head = None, tail = None\<rparr> \<and>
     perform (Call_signal (Some 10) (Some 5) 20) s = Some out_signal \<and>
     switched out_signal \<and> current_coroutine (engine_of out_signal) = Some 1 \<and>
     map_option c_state (coroutines (engine_of out_signal) 2) = Some ROUTINES_RUNNING \<and>
     map_option c_queue (coroutines (engine_of out_signal) 2) = Some (Some ReadyQ) \<and>
     tail (ready_queue (engine_of out_signal)) = Some 2 \<and>
     perform Call_yield s = Some out_yield \<and>
     \<not> switched out_yield \<and> current_coroutine (engine_of out_yield) = Some 2 \<and>
     perform (Call_wait (Some 11)) s = Some out_wait \<and>
     switched out_wait \<and> current_coroutine (engine_of out_wait) = None \<and>
     map_option c_state (coroutines (engine_of out_wait) 2) = Some ROUTINES_BLOCKED_RECV \<and>
     map_option c_queue (coroutines (engine_of out_wait) 2) = Some (Some (RecvQ 11)) \<and>
     map_option (\<lambda>mq. tail (q_recv_queue mq)) (queues (engine_of out_wait) 11) = Some (Some 2) \<and>
     perform (Call_read (Some 10)) s = Some out_read \<and> stays 2 out_read \<and>
     perform Call_suspend_self s = Some out_self \<and>
     switched out_self \<and> current_coroutine (engine_of out_self) = None \<and>
     map_option c_state (coroutines (engine_of out_self) 2) = Some ROUTINES_SUSPENDED \<and>
     perform (Call_spawn (Some 9) None 3 3000) s = Some out_spawn \<and>
     switched out_spawn \<and> current_coroutine (engine_of out_spawn) = Some 3 \<and>
     tail (ready_queue (engine_of out_spawn)) = Some 2 \<and>
     perform (Call_suspend (Some 1)) s = Some out_other \<and> stays 2 out_other"
proof -
  obtain s where s: "served_run = Some s"
    by (simp add: run_defs eval_defs)
  have cur: "current_coroutine s = Some 2"
    and rq: "ready_queue s = \<lparr>head = None, tail = None\<rparr>"
    and q10: "map_option (\<lambda>mq. head (q_recv_queue mq)) (queues s 10) = Some (Some 1)"
    and q11: "map_option q_head (queues s 11) = Some None"
    using s by (auto simp: run_defs eval_defs)
  obtain c where c: "coroutines s 2 = Some c" "c_queue c = None"
    using s by (auto simp: run_defs eval_defs)
  note t = control_switches_only_at[OF cur c]
  obtain out_signal where si: "perform (Call_signal (Some 10) (Some 5) 20) s = Some out_signal"
    using s by (auto simp: run_defs eval_defs)
  obtain out_yield where yi: "perform Call_yield s = Some out_yield"
    using s by (auto simp: run_defs eval_defs)
  obtain out_wait where wa: "perform (Call_wait (Some 11)) s = Some out_wait"
    using s by (auto simp: run_defs eval_defs)
  obtain out_read where re: "perform (Call_read (Some 10)) s = Some out_read"
    using s by (auto simp: run_defs eval_defs)
  obtain out_self where se: "perform Call_suspend_self s = Some out_self"
    using s by (auto simp: run_defs eval_defs)
  obtain out_spawn where sp: "perform (Call_spawn (Some 9) None 3 3000) s = Some out_spawn"
    using s by (auto simp: run_defs eval_defs)
  obtain out_other where ot: "perform (Call_suspend (Some 1)) s = Some out_other"
    using s by (auto simp: run_defs eval_defs)
  from t[OF si] q10 have 1: "control_to 2 (Some 1) ROUTINES_RUNNING (Some ReadyQ) out_signal"
    by auto
  then have 1: "switched out_signal" "current_coroutine (engine_of out_signal) = Some 1"
    "map_option c_state (coroutines (engine_of out_signal) 2) = Some ROUTINES_RUNNING"
    "map_option c_queue (coroutines (engine_of out_signal) 2) = Some (Some ReadyQ)"
    "tail (ready_queue (engine_of out_signal)) = Some 2"
    by (auto simp: control_to_def cq_get_def split: option.splits)
  from t[OF yi] rq have 2: "\<not> switched out_yield" "current_coroutine (engine_of out_yield) = Some 2"
    by auto
  from t[OF wa] q11 rq
  have "control_to 2 None ROUTINES_BLOCKED_RECV (Some (RecvQ 11)) out_wait"
    by auto
  then have 3: "switched out_wait" "current_coroutine (engine_of out_wait) = None"
    "map_option c_state (coroutines (engine_of out_wait) 2) = Some ROUTINES_BLOCKED_RECV"
    "map_option c_queue (coroutines (engine_of out_wait) 2) = Some (Some (RecvQ 11))"
    "map_option (\<lambda>mq. tail (q_recv_queue mq)) (queues (engine_of out_wait) 11) = Some (Some 2)"
    by (auto simp: control_to_def cq_get_def split: option.splits)
  from t[OF re] have 4: "stays 2 out_read" by simp
  from t[OF se] rq have "control_to 2 None ROUTINES_SUSPENDED None out_self" by simp
  then have 5: "switched out_self" "current_coroutine (engine_of out_self) = None"
    "map_option c_state (coroutines (engine_of out_self) 2) = Some ROUTINES_SUSPENDED"
    by (auto simp: control_to_def split: option.splits)
  from t[OF sp] have 6: "switched out_spawn" "current_coroutine (engine_of out_spawn) = Some 3"
    "tail (ready_queue (engine_of out_spawn)) = Some 2"
    by auto
  from t[OF ot] have 7: "stays 2 out_other" by simp
  show ?thesis
    apply (rule exI[of _ s])
    apply (rule exI[of _ c])
    apply (rule exI[of _ out_signal])
    apply (rule exI[of _ out_yield])
    apply (rule exI[of _ out_wait])
    apply (rule exI[of _ out_read])
    apply (rule exI[of _ out_self])
    apply (rule exI[of _ out_spawn])
    apply (rule exI[of _ out_other])
    using s cur c q10 q11 rq si yi wa re se sp ot 1 2 3 4 5 6 7
    apply simp
    done
qed

text \<open>
  C6 as stated fails. Coroutine 2 signals (or posts on) queue 10, where coroutine 1 is
  parked: control leaves coroutine 2 and is in coroutine 1. Coroutine 1 spawns coroutine
  2: control leaves coroutine 1 and is in coroutine 2.
\<close>

theorem signal_switches_counterexample:
  "map_option current_coroutine served_run = Some (Some 2) \<and>
   map_option (\<lambda>out. (switched out, current_coroutine (engine_of out)))
     (served_run \<bind> routines_signal (Some 10) (Some 5) 20) = Some (True, Some 1) \<and>
   map_option (\<lambda>out. (switched out, current_coroutine (engine_of out)))
     (served_run \<bind> routines_post (Some 10) (Some 5) (Some 11) 20) = Some (True, Some 1) \<and>
   map_option current_coroutine spawned_run = Some (Some 1) \<and>
   map_option (\<lambda>out. (switched out, current_coroutine (engine_of out)))
     (spawned_run \<bind> routines_spawn (Some 8) None 2 2000) = Some (True, Some 2)"
  by (simp add: run_defs eval_defs)

subsection \<open>C7: messages are delivered in the order of admission\<close>

text \<open>
  C7. Let \<open>es\<close> be the entries pending on the queue \<open>q\<close>, in order. After any run of
  admissions to \<open>q\<close> and deliveries from \<open>q\<close>, interleaved with suspensions,
  resumptions and transfers of coroutines, that does not abort, the payloads that were
  pending followed by the payloads admitted are the payloads delivered followed by the
  payloads still pending: what has been delivered is an initial segment, in the order of
  admission, of what the queue held and was given.
\<close>

theorem message_queue_is_fifo:
  assumes "mq_inv s q es" and "run_mq q ops s = Some (admitted, delivered, s')"
  shows "\<exists>es'. mq_inv s' q es' \<and> payloads s es @ admitted = delivered @ payloads s' es'"
  using assms
proof (induction ops arbitrary: s es admitted delivered)
  case Nil
  then show ?case by auto
next
  case (Cons op ops)
  show ?case
  proof (cases op)
    case (Admit message sender reply_queue new_tail k)
    with Cons.prems(2) obtain out adm where
      fresh: "messages s new_tail = None"
      and en: "enqueue_message q message sender reply_queue new_tail k s = Some out"
      and rest: "run_mq q ops (engine_of out) = Some (adm, delivered, s')"
      and adm: "admitted = message # adm"
      by (auto elim!: bindE split: prod.splits)
    from enqueue_message_inv[OF Cons.prems(1) fresh en]
    have i: "mq_inv (engine_of out) q (es @ [new_tail])"
      and p: "payloads (engine_of out) (es @ [new_tail]) = payloads s es @ [message]"
      by simp_all
    from Cons.IH[OF i rest] obtain es' where "mq_inv s' q es'"
      "payloads (engine_of out) (es @ [new_tail]) @ adm = delivered @ payloads s' es'"
      by blast
    with p adm show ?thesis by auto
  next
    case (Deliver cell)
    with Cons.prems(2) obtain pending message cell' s1 del where
      pe: "pending_messages (Some q) s = Some pending"
      and de: "dequeue_message q cell s = Some (message, cell', s1)"
      and rest: "run_mq q ops s1 = Some (admitted, del, s')"
      and del: "delivered = (if pending then message # del else del)"
      by (auto elim!: bindE split: prod.splits)
    from Cons.prems(1) obtain mq where mq: "queues s q = Some mq"
      and ch: "msg_chain s (q_head mq) es"
      by (auto simp: mq_inv_def split: option.splits)
    note d = dequeue_message_inv[OF Cons.prems(1) de]
    show ?thesis
    proof (cases es)
      case Nil
      with ch have "q_head mq = None" by simp
      with pe mq have np: "\<not> pending" by (simp add: pending_messages_def)
      from d Nil have i: "mq_inv s1 q []" by simp
      from Cons.IH[OF i rest] obtain es' where "mq_inv s' q es'"
        "payloads s1 [] @ admitted = del @ payloads s' es'"
        by blast
      with Nil np del show ?thesis by (auto simp: payloads_def)
    next
      case (Cons e es0)
      with ch have "q_head mq = Some e" by simp
      with pe mq have yp: "pending" by (simp add: pending_messages_def)
      from d Cons have m: "[message] = payloads s [e]" and i: "mq_inv s1 q es0"
        and p: "payloads s1 es0 = payloads s es0" by simp_all
      from Cons.IH[OF i rest] obtain es' where e': "mq_inv s' q es'"
        "payloads s1 es0 @ admitted = del @ payloads s' es'"
        by blast
      from m have "payloads s es = message # payloads s es0"
        unfolding Cons by (simp add: payloads_def)
      with e' p yp del show ?thesis by auto
    qed
  next
    case (Suspend coroutine)
    with Cons.prems(2) obtain out where
      su: "routines_suspend coroutine s = Some out"
      and rest: "run_mq q ops (engine_of out) = Some (admitted, delivered, s')"
      by (auto elim!: bindE)
    from suspend_frame[OF su] have same: "mq_same s (engine_of out)"
      by (rule frame_mq_same)
    from Cons.IH[OF mq_same_inv[OF same Cons.prems(1)] rest] mq_same_payloads[OF same]
    show ?thesis by simp
  next
    case (Resume coroutine)
    with Cons.prems(2) obtain s1 where
      re: "routines_resume coroutine s = Some s1"
      and rest: "run_mq q ops s1 = Some (admitted, delivered, s')"
      by (auto elim!: bindE)
    from resume_frame[OF re] have same: "mq_same s s1"
      by (rule frame_mq_same)
    from Cons.IH[OF mq_same_inv[OF same Cons.prems(1)] rest] mq_same_payloads[OF same]
    show ?thesis by simp
  next
    case (Transfer queue state coroutine k)
    with Cons.prems(2) obtain out where
      tr: "transfer queue state coroutine k s = Some out"
      and rest: "run_mq q ops (engine_of out) = Some (admitted, delivered, s')"
      by (auto elim!: bindE)
    from transfer_frame[OF tr] have same: "mq_same s (engine_of out)"
      by (rule frame_mq_same)
    from Cons.IH[OF mq_same_inv[OF same Cons.prems(1)] rest] mq_same_payloads[OF same]
    show ?thesis by simp
  qed
qed

theorem message_queue_is_fifo_witness:
  "\<exists>s s' es'. spawned_run = Some s \<and> mq_inv s 10 [] \<and>
     run_mq 10 fifo_ops s =
       Some ([Some 5, Some 6, Some 7, None], [Some 5, Some 6, Some 7], s') \<and>
     mq_inv s' 10 es' \<and>
     payloads s [] @ [Some 5, Some 6, Some 7, None] =
       [Some 5, Some 6, Some 7] @ payloads s' es'"
proof -
  obtain s where s: "spawned_run = Some s"
    by (simp add: run_defs eval_defs)
  have inv: "mq_inv s 10 []"
    using s by (auto simp: run_defs eval_defs mq_inv_def)
  obtain s' where run:
    "run_mq 10 fifo_ops s = Some ([Some 5, Some 6, Some 7, None], [Some 5, Some 6, Some 7], s')"
    using s by (auto simp: run_defs eval_defs fifo_ops_def)
  from message_queue_is_fifo[OF inv run] obtain es' where
    "mq_inv s' 10 es'"
    "payloads s [] @ [Some 5, Some 6, Some 7, None] = [Some 5, Some 6, Some 7] @ payloads s' es'"
    by blast
  with s inv run show ?thesis by blast
qed

subsection \<open>C8: suspending a blocked sender\<close>

text \<open>
  C8. Let coroutine \<open>a\<close>, not the current one and in no coroutine queue, be parked as the
  sender of the entry \<open>e\<close> (its \<open>message\<close> pointer points into \<open>e\<close>). Then
  \<open>routines_suspend\<close> returns, and all it changes in the message heap is the \<open>sender\<close>
  member of \<open>e\<close>, now NULL; the message queues are as they were, and \<open>a\<close> is Suspended.
  In any later state in which \<open>e\<close>, still without a sender and with its payload, is the
  head of a queue, \<open>dequeue_message\<close> on that queue returns the payload of \<open>e\<close> and
  changes no coroutine, nor the ready queue, nor the current coroutine: nobody is resumed.
\<close>

theorem suspended_sender_leaves_payload:
  assumes "coroutines s a = Some c" and "c_message c = Some e" and "c_queue c = None"
    and "messages s e = Some m" and "Some a \<noteq> current_coroutine s"
  shows "\<exists>s1 c1. routines_suspend (Some a) s = Some (Returned RUnit s1) \<and>
           messages s1 = (messages s)(e \<mapsto> m\<lparr>m_sender := None\<rparr>) \<and>
           queues s1 = queues s \<and>
           coroutines s1 a = Some c1 \<and> c_state c1 = ROUTINES_SUSPENDED \<and>
           c_message c1 = None \<and> c_queue c1 = None \<and>
           (\<forall>s2 q mq m2 cell.
              queues s2 q = Some mq \<and> q_head mq = Some e \<and> messages s2 e = Some m2 \<and>
              m_sender m2 = None \<and> m_message m2 = m_message m \<longrightarrow>
              (\<exists>cell' s3. dequeue_message q cell s2 = Some (m_message m, cell', s3) \<and>
                 coroutines s3 = coroutines s2 \<and> ready_queue s3 = ready_queue s2 \<and>
                 current_coroutine s3 = current_coroutine s2))"
proof -
  have "case c_message c of None \<Rightarrow> True | Some e \<Rightarrow> messages s e \<noteq> None"
    using assms(2,4) by simp
  from suspend_unqueued[OF assms(1,3,5) this] assms(2,4)
  have 1: "routines_suspend (Some a) s =
     Some (Returned RUnit
       (s\<lparr>messages := (messages s)(e \<mapsto> m\<lparr>m_sender := None\<rparr>),
          coroutines := (coroutines s)(a \<mapsto> c\<lparr>c_message := None, c_state := ROUTINES_SUSPENDED\<rparr>)\<rparr>))"
    by simp
  have 2: "\<forall>s2 q mq m2 cell.
              queues s2 q = Some mq \<and> q_head mq = Some e \<and> messages s2 e = Some m2 \<and>
              m_sender m2 = None \<and> m_message m2 = m_message m \<longrightarrow>
              (\<exists>cell' s3. dequeue_message q cell s2 = Some (m_message m, cell', s3) \<and>
                 coroutines s3 = coroutines s2 \<and> ready_queue s3 = ready_queue s2 \<and>
                 current_coroutine s3 = current_coroutine s2)"
  proof (intro allI impI)
    fix s2 :: engine and q and mq :: routines_queue and m2 :: message_t and cell
    assume "queues s2 q = Some mq \<and> q_head mq = Some e \<and> messages s2 e = Some m2 \<and>
              m_sender m2 = None \<and> m_message m2 = m_message m"
    with dequeue_message_no_sender[of s2 q mq e m2 cell]
    show "\<exists>cell' s3. dequeue_message q cell s2 = Some (m_message m, cell', s3) \<and>
                 coroutines s3 = coroutines s2 \<and> ready_queue s3 = ready_queue s2 \<and>
                 current_coroutine s3 = current_coroutine s2"
      by auto
  qed
  from 1 2 assms(3) show ?thesis by simp
qed

theorem suspended_sender_leaves_payload_witness:
  "\<exists>s c m s1 s3. sending_run = Some s \<and>
     coroutines s 1 = Some c \<and> c_message c = Some 20 \<and> c_queue c = None \<and>
     c_state c = ROUTINES_BLOCKED_SEND \<and>
     messages s 20 = Some m \<and> m_sender m = Some 1 \<and> m_message m = Some 99 \<and>
     Some 1 \<noteq> current_coroutine s \<and>
     routines_suspend (Some 1) s = Some (Returned RUnit s1) \<and>
     messages s1 = (messages s)(20 \<mapsto> m\<lparr>m_sender := None\<rparr>) \<and>
     observe 1 s1 = Some (ROUTINES_SUSPENDED, None, None) \<and>
     dequeue_message 10 None s1 = Some (Some 99, None, s3) \<and>
     coroutines s3 = coroutines s1 \<and> ready_queue s3 = ready_queue s1 \<and>
     ready_queue s3 = \<lparr>head = None, tail = None\<rparr>"
proof -
  obtain s where s: "sending_run = Some s"
    by (simp add: run_defs eval_defs)
  obtain c where c: "coroutines s 1 = Some c" "c_message c = Some 20" "c_queue c = None"
    "c_state c = ROUTINES_BLOCKED_SEND"
    using s by (auto simp: run_defs eval_defs)
  obtain m where m: "messages s 20 = Some m" "m_sender m = Some 1" "m_message m = Some 99"
    using s by (auto simp: run_defs eval_defs)
  have cur: "Some 1 \<noteq> current_coroutine s"
    and q: "map_option q_head (queues s 10) = Some (Some 20)"
    and r: "ready_queue s = \<lparr>head = None, tail = None\<rparr>"
    using s by (auto simp: run_defs eval_defs)
  from suspended_sender_leaves_payload[OF c(1,2,3) m(1) cur] obtain s1 c1 where
    s1: "routines_suspend (Some 1) s = Some (Returned RUnit s1)"
      "messages s1 = (messages s)(20 \<mapsto> m\<lparr>m_sender := None\<rparr>)"
      "queues s1 = queues s"
      "coroutines s1 1 = Some c1" "c_state c1 = ROUTINES_SUSPENDED" "c_message c1 = None"
      "c_queue c1 = None"
    and later: "\<forall>s2 q mq m2 cell.
              queues s2 q = Some mq \<and> q_head mq = Some 20 \<and> messages s2 20 = Some m2 \<and>
              m_sender m2 = None \<and> m_message m2 = m_message m \<longrightarrow>
              (\<exists>cell' s3. dequeue_message q cell s2 = Some (m_message m, cell', s3) \<and>
                 coroutines s3 = coroutines s2 \<and> ready_queue s3 = ready_queue s2 \<and>
                 current_coroutine s3 = current_coroutine s2)"
    by blast
  from q s1(3) obtain mq :: routines_queue where mq: "queues s1 10 = Some mq" "q_head mq = Some 20"
    by auto
  from later have "queues s1 10 = Some mq \<and> q_head mq = Some 20 \<and>
      messages s1 20 = Some (m\<lparr>m_sender := None\<rparr>) \<and>
      m_sender (m\<lparr>m_sender := None\<rparr>) = None \<and> m_message (m\<lparr>m_sender := None\<rparr>) = m_message m \<longrightarrow>
      (\<exists>cell' s3. dequeue_message 10 None s1 = Some (m_message m, cell', s3) \<and>
         coroutines s3 = coroutines s1 \<and> ready_queue s3 = ready_queue s1 \<and>
         current_coroutine s3 = current_coroutine s1)"
    by (elim allE)
  with mq s1(2) obtain cell' s3 where d: "dequeue_message 10 None s1 = Some (m_message m, cell', s3)"
    "coroutines s3 = coroutines s1" "ready_queue s3 = ready_queue s1"
    by auto
  from dequeue_message_co_frame(3)[OF d(1)] have "cell' = None" by simp
  moreover have "ready_queue s1 = ready_queue s"
    using s1(1) c(1,2,3) m(1) cur
    by (auto simp: routines_suspend_def suspend_then_def msg_upd_def co_upd_def)
  ultimately show ?thesis
    using s c m cur s1 d r by (auto simp: observe_def)
qed

subsection \<open>C9: suspending twice\<close>

text \<open>
  C9 fails on the code. \<open>coroutine_dequeue\<close> leaves the \<open>prev\<close> of the new head
  pointing at the coroutine it has taken off, and \<open>coroutine_remove\<close>, finding a
  \<open>prev\<close>, writes the \<open>next\<close> of that coroutine where it should write the head of
  the queue. Root resumes coroutines 1 and 2 and yields: coroutine 1 runs, coroutine 2 is
  the head of the ready queue with \<open>prev\<close> still coroutine 1. Coroutine 1 suspends
  coroutine 2: the call returns, coroutine 2 is Suspended with NULL queue pointer and
  links, and it is still the head of the ready queue, whose tail is now the running
  coroutine 1. A second \<open>routines_suspend\<close> changes nothing, so the two calls do leave
  the state of one call; but coroutine 2 has kept its place in the ready queue, and the
  next \<open>routines_yield\<close> of coroutine 1 enters it: it is the current coroutine and
  Running, though nobody has resumed it.
\<close>

theorem suspend_leaves_coroutine_at_ready_head:
  "map_option (\<lambda>s. (current_coroutine s, ready_queue s, links 1 s, links 2 s, observe 2 s))
     two_ready_run =
     Some (Some 1, \<lparr>head = Some 2, tail = Some 2\<rparr>, Some (None, None, Some 2),
           Some (Some ReadyQ, Some 1, None), Some (ROUTINES_RUNNING, Some ReadyQ, None)) \<and>
   map_option (\<lambda>s. (current_coroutine s, ready_queue s, links 1 s, links 2 s, observe 2 s))
     suspended_run =
     Some (Some 1, \<lparr>head = Some 2, tail = Some 1\<rparr>, Some (None, None, None),
           Some (None, None, None), Some (ROUTINES_SUSPENDED, None, None)) \<and>
   (suspended_run \<bind> routines_suspend (Some 2)) = map_option (Returned RUnit) suspended_run \<and>
   map_option (\<lambda>out. (switched out, current_coroutine (engine_of out), observe 2 (engine_of out)))
     (suspended_run \<bind> routines_yield) = Some (True, Some 2, Some (ROUTINES_RUNNING, None, None))"
  by (simp add: run_defs eval_defs)

subsection \<open>C10: yield from the root context\<close>

text \<open>
  C10. Called from the root context (no current coroutine) while the ready queue has no
  head, \<open>routines_yield\<close> returns at once: the current coroutine is still NULL, the
  ready queue still has no head, the message queues and the messages are unchanged, and
  every coroutine keeps its state, its queue pointer and links, its join queue and its
  message pointer. (An exited coroutine whose stack is still to be reclaimed must be
  allocated; \<open>setjmp\<close> overwrites the root context.)
\<close>

theorem yield_from_root_changes_nothing:
  assumes "current_coroutine s = None" and "head (ready_queue s) = None"
    and "\<forall>x. exited_coroutine s = Some x \<longrightarrow> coroutines s x \<noteq> None"
  shows "\<exists>s'. routines_yield s = Some (Returned RUnit s') \<and>
           current_coroutine s' = None \<and>
           head (ready_queue s') = None \<and>
           queues s' = queues s \<and> messages s' = messages s \<and>
           dom (coroutines s') = dom (coroutines s) \<and>
           (\<forall>a c. coroutines s a = Some c \<longrightarrow>
              (\<exists>c'. coroutines s' a = Some c' \<and> c_state c' = c_state c \<and>
                 c_queue c' = c_queue c \<and> c_next c' = c_next c \<and> c_prev c' = c_prev c \<and>
                 c_join_queue c' = c_join_queue c \<and> c_message c' = c_message c))"
  using assms
  by (cases "exited_coroutine s")
     (auto simp: routines_yield_def transfer_def mem_defs coroutine_dequeue_def
        reclaim_exited_def free_stack_def push_stack_def Let_def split: option.splits)

theorem yield_from_root_changes_nothing_witness:
  "\<exists>s s'. waiting_run = Some s \<and> current_coroutine s = None \<and>
     head (ready_queue s) = None \<and> exited_coroutine s = None \<and>
     routines_yield s = Some (Returned RUnit s') \<and>
     current_coroutine s' = None \<and> head (ready_queue s') = None \<and>
     queues s' = queues s \<and> messages s' = messages s \<and>
     observe 1 s' = observe 1 s \<and>
     observe 1 s = Some (ROUTINES_BLOCKED_RECV, Some (RecvQ 10), None)"
proof -
  obtain s where s: "waiting_run = Some s"
    by (simp add: run_defs eval_defs)
  have h: "current_coroutine s = None" "head (ready_queue s) = None"
    "exited_coroutine s = None"
    "observe 1 s = Some (ROUTINES_BLOCKED_RECV, Some (RecvQ 10), None)"
    using s by (auto simp: run_defs eval_defs)
  then have x: "\<forall>x. exited_coroutine s = Some x \<longrightarrow> coroutines s x \<noteq> None"
    by simp
  from yield_from_root_changes_nothing[OF h(1,2) x] obtain s' where
    y: "routines_yield s = Some (Returned RUnit s')" "current_coroutine s' = None"
      "head (ready_queue s') = None" "queues s' = queues s" "messages s' = messages s"
    and co: "\<forall>a c. coroutines s a = Some c \<longrightarrow>
              (\<exists>c'. coroutines s' a = Some c' \<and> c_state c' = c_state c \<and>
                 c_queue c' = c_queue c \<and> c_next c' = c_next c \<and> c_prev c' = c_prev c \<and>
                 c_join_queue c' = c_join_queue c \<and> c_message c' = c_message c)"
    by blast
  from h(4) obtain c :: routines_coroutine where c: "coroutines s 1 = Some c"
    by (auto simp: observe_def)
  from co have "coroutines s 1 = Some c \<longrightarrow>
              (\<exists>c'. coroutines s' 1 = Some c' \<and> c_state c' = c_state c \<and>
                 c_queue c' = c_queue c \<and> c_next c' = c_next c \<and> c_prev c' = c_prev c \<and>
                 c_join_queue c' = c_join_queue c \<and> c_message c' = c_message c)"
    by (elim allE)
  with c have "observe 1 s' = observe 1 s"
    by (auto simp: observe_def)
  with s h y show ?thesis by auto
qed

end
